theory Spec2Isabelle
  imports Main "HOL-Library.Word" "HOL-Library.Sublist" "HOL-Library.List_Lexorder"
begin

unbundle bit_operations_syntax

section \<open>JavaScript strings\<close>

text \<open>
  A JavaScript string is a sequence of UTF-16 code units: \<open>length\<close>, \<open>substring\<close>,
  \<open>trim\<close> and \<open>===\<close> all work on code units. The order \<open><\<close> on strings is the
  lexicographic order of the code units, which is what JavaScript's \<open><\<close> computes.
\<close>

type_synonym jschar = "16 word"
type_synonym jsstring = "jschar list"

text \<open>An ASCII literal of the source, as code units.\<close>

definition lit :: "string \<Rightarrow> jsstring" where
  "lit s = map (\<lambda>c. of_char c) s"

text \<open>
  \<open>String.prototype.trim\<close> removes the WhiteSpace and LineTerminator code points of
  ECMAScript from both ends; all of them are single code units.
\<close>

definition is_space :: "jschar \<Rightarrow> bool" where
  "is_space c \<longleftrightarrow>
     c \<in> {0x0009, 0x000A, 0x000B, 0x000C, 0x000D, 0x0020, 0x00A0, 0x1680,
          0x2028, 0x2029, 0x202F, 0x205F, 0x3000, 0xFEFF}
     \<or> (0x2000 \<le> c \<and> c \<le> 0x200A)"

definition trim :: "jsstring \<Rightarrow> jsstring" where
  "trim s = rev (dropWhile is_space (rev (dropWhile is_space s)))"

text \<open>The regular expression \<open>/^\<backslash>d+$/\<close>: one or more of the digits 0 to 9, nothing else.\<close>

definition is_digit :: "jschar \<Rightarrow> bool" where
  "is_digit c \<longleftrightarrow> 0x30 \<le> c \<and> c \<le> 0x39"

definition all_digits :: "jsstring \<Rightarrow> bool" where
  "all_digits s \<longleftrightarrow> s \<noteq> [] \<and> list_all is_digit s"

text \<open>
  \<open>Number(s)\<close> on a string of decimal digits. The source gets a double; the model keeps
  the exact natural number. The two differ only from \<open>2 ^ 53\<close> on, where the double is
  still at least \<open>2 ^ 53\<close> (or \<open>Infinity\<close>, which \<open>Number.isInteger\<close> rejects), so the
  membership test in the list of supported chains has the same outcome in both.
\<close>

definition Number :: "jsstring \<Rightarrow> nat" where
  "Number s = foldl (\<lambda>acc c. 10 * acc + (unat c - 48)) 0 s"

text \<open>\<open>String(n)\<close> on a natural number below \<open>10 ^ 21\<close>: its decimal digits.\<close>

fun String :: "nat \<Rightarrow> jsstring" where
  "String n = (if n < 10 then [of_nat (48 + n)] else String (n div 10) @ [of_nat (48 + n mod 10)])"

declare String.simps [simp del]

text \<open>\<open>s.includes(pat)\<close>: \<open>pat\<close> occurs in \<open>s\<close> as a contiguous block.\<close>

fun js_includes :: "jsstring \<Rightarrow> jsstring \<Rightarrow> bool" where
  "js_includes [] pat = (pat = [])"
| "js_includes (c # s) pat = (prefix pat (c # s) \<or> js_includes s pat)"

text \<open>
  \<open>s.replace(pat, rep)\<close> with a string pattern: the first occurrence is replaced. The
  \<open>$\<close> patterns of the replacement are not modelled: the only replacement of this
  program is a result of \<open>encodeURIComponent\<close>, which has no \<open>$\<close> (lemma
  \<open>encodeURIComponent_no_dollar\<close> below).
\<close>

fun replace :: "jsstring \<Rightarrow> jsstring \<Rightarrow> jsstring \<Rightarrow> jsstring" where
  "replace [] pat rep = (if pat = [] then rep else [])"
| "replace (c # s) pat rep =
     (if prefix pat (c # s) then rep @ drop (length pat) (c # s) else c # replace s pat rep)"

section \<open>Types\<close>

text \<open>
  The records of the GraphQL response. A field that the code guards against being
  absent (\<open>?.\<close>, \<open>??\<close>, \<open>!x\<close>) is an option, \<open>None\<close> standing for \<open>null\<close> or
  \<open>undefined\<close>.
\<close>

record token =
  token_id :: "jsstring option"
  token_symbol :: "jsstring option"
  token_name :: "jsstring option"

record LiquidityPool =
  pool_id :: "jsstring option"
  pool_name :: jsstring
  pool_symbol :: "jsstring option"
  inputTokens :: "token list option"
  outputToken :: "token option"

record ContractTag =
  Contract_Address :: jsstring
  Public_Name_Tag :: jsstring
  Project_Name :: jsstring
  UI_Website_Link :: jsstring
  Public_Note :: jsstring

section \<open>Transform to tags\<close>

text \<open>
  \<open>text.substring(0, maxLength - 3)\<close> clamps a negative end to 0, as \<open>nat\<close> does.
\<close>

definition truncateString :: "jsstring \<Rightarrow> int \<Rightarrow> jsstring" where
  "truncateString text maxLength =
     (if int (length text) > maxLength
      then take (nat (maxLength - 3)) text @ lit ''...''
      else text)"

text \<open>
  The loop of \<open>transformPoolsToTags\<close>, with its two mutable variables \<open>tags\<close> and
  \<open>seen\<close> passed along. Each \<open>continue\<close> is a recursive call on the rest of the pools.
\<close>

fun transform_loop ::
  "jsstring \<Rightarrow> LiquidityPool list \<Rightarrow> ContractTag list \<Rightarrow> jsstring set \<Rightarrow> ContractTag list" where
  "transform_loop chainId [] tags seen = tags"
| "transform_loop chainId (pool # pools) tags seen =
     (case outputToken pool of
        None \<Rightarrow> transform_loop chainId pools tags seen
      | Some lpToken \<Rightarrow>
          (case token_id lpToken of
             None \<Rightarrow> transform_loop chainId pools tags seen
           | Some lpId \<Rightarrow>
               if lpId = [] \<or> lpId \<in> seen then transform_loop chainId pools tags seen
               else
                 let seen' = insert lpId seen;
                     lpSymbol = (case token_symbol lpToken of None \<Rightarrow> [] | Some s \<Rightarrow> trim s);
                     lpName = (case token_name lpToken of None \<Rightarrow> [] | Some s \<Rightarrow> trim s)
                 in if lpSymbol = [] then transform_loop chainId pools tags seen'
                    else
                      let maxLen = 45;
                          publicNameTag = truncateString (lpSymbol @ lit '' Pool'') maxLen;
                          publicNote = lit ''Sushi's '' @ lpSymbol @ lit '' ('' @ lpName
                                       @ lit '') pool contract.''
                      in transform_loop chainId pools
                           (tags @ [\<lparr>Contract_Address = lit ''eip155:'' @ chainId @ lit '':'' @ lpId,
                                     Public_Name_Tag = publicNameTag,
                                     Project_Name = lit ''Sushi'',
                                     UI_Website_Link = lit ''https://www.sushi.com/'',
                                     Public_Note = publicNote\<rparr>])
                           seen'))"

definition transformPoolsToTags :: "jsstring \<Rightarrow> LiquidityPool list \<Rightarrow> ContractTag list" where
  "transformPoolsToTags chainId pools = transform_loop chainId pools [] {}"

section \<open>The network\<close>

text \<open>
  Every call of \<open>fetch\<close> is a request to the world outside. The world is a function
  from the requests issued so far and the present request to what \<open>fetch\<close> gives
  back, so it may answer the same request differently at different times. Each
  function that calls \<open>fetch\<close> takes the list of the requests issued so far and
  returns it extended: the list is the record of the network calls of a run.

  A request is the URL and the body: the metadata query has no variables, the pools
  query has the variables \<open>lastId\<close> and \<open>block\<close>. The query text of the pools query
  asks for \<open>first: 1000\<close> pools with \<open>id_gt: $lastId\<close>, ordered by \<open>id\<close> ascending, at
  \<open>block: { number: $block }\<close>.
\<close>

datatype request =
  MetaQuery jsstring
| PoolsQuery jsstring jsstring int

text \<open>A JavaScript exception that is not made by this module: its name and message.\<close>

datatype exn = Exn jsstring jsstring

record GraphQLData =
  liquidityPools :: "LiquidityPool list option"
  meta_block_number :: "int option"

record GraphQLResponse =
  resp_data :: "GraphQLData option"
  resp_errors :: "jsstring list option"

text \<open>
  \<open>meta_block_number\<close> is \<open>Some n\<close> when \<open>json?.data?._meta?.block?.number\<close> is a
  number. The block number is only handed on to the pools query, so an integer stands
  for it. Reading the body (\<open>response.json()\<close>) may throw too.
\<close>

datatype body = BodyThrows exn | Body GraphQLResponse

datatype http_result =
  Throws exn
| Response bool nat body

type_synonym network = "request list \<Rightarrow> request \<Rightarrow> http_result"

text \<open>
  The module throws \<open>Error\<close> objects that differ in their message only. The kind is
  the name the specification gives to each of them; the string is the message of the
  source. \<open>Uncaught\<close> is an exception of \<open>fetch\<close> or of a built-in, passed on as it is.
\<close>

datatype error_kind =
  ValidationError | ConfigurationError | TransportError | TimeoutError
| QueryError | SchemaError | PaginationStallError

datatype error = Error error_kind jsstring | Uncaught exn

definition is_abort :: "exn \<Rightarrow> bool" where
  "is_abort e = (case e of Exn name msg \<Rightarrow> name = lit ''AbortError'')"

section \<open>Block pinning\<close>

text \<open>
  Everything of \<open>fetchIndexedBlockNumber\<close> runs inside its \<open>try\<close>: an \<open>AbortError\<close>
  from \<open>fetch\<close> or from reading the body becomes the timeout error, the errors the
  function makes itself have the name \<open>Error\<close> and are thrown again unchanged.
\<close>

definition fetchIndexedBlockNumber ::
  "network \<Rightarrow> request list \<Rightarrow> jsstring \<Rightarrow> request list \<times> (error + int)" where
  "fetchIndexedBlockNumber net hist subgraphUrl =
     (let req = MetaQuery subgraphUrl;
          timed_out = Error TimeoutError
                        (lit ''Request timed out while querying _meta for block number.'')
      in (hist @ [req],
          case net hist req of
            Throws e \<Rightarrow> Inl (if is_abort e then timed_out else Uncaught e)
          | Response ok status b \<Rightarrow>
              if \<not> ok then Inl (Error TransportError (lit ''HTTP error (meta): '' @ String status))
              else
                (case b of
                   BodyThrows e \<Rightarrow> Inl (if is_abort e then timed_out else Uncaught e)
                 | Body json \<Rightarrow>
                     (case (case resp_data json of None \<Rightarrow> None | Some d \<Rightarrow> meta_block_number d) of
                        None \<Rightarrow> Inl (Error SchemaError
                                  (lit ''Failed to read _meta.block.number from subgraph response''))
                      | Some blockNumber \<Rightarrow> Inr blockNumber))))"

section \<open>Pools query\<close>

text \<open>
  In \<open>fetchPools\<close> only the call of \<open>fetch\<close> is inside the \<open>try\<close>. An \<open>errors\<close> field
  that is present is an array, and every array is truthy, the empty one too. The
  messages written with \<open>console.error\<close> are not part of the model.
\<close>

definition fetchPools ::
  "network \<Rightarrow> request list \<Rightarrow> jsstring \<Rightarrow> jsstring \<Rightarrow> int
     \<Rightarrow> request list \<times> (error + LiquidityPool list)" where
  "fetchPools net hist subgraphUrl lastId blockNumber =
     (let req = PoolsQuery subgraphUrl lastId blockNumber
      in (hist @ [req],
          case net hist req of
            Throws e \<Rightarrow>
              Inl (if is_abort e
                   then Error TimeoutError
                          (lit ''Request timed out while querying the pools subgraph.'')
                   else Uncaught e)
          | Response ok status b \<Rightarrow>
              if \<not> ok then Inl (Error TransportError (lit ''HTTP error (pools): '' @ String status))
              else
                (case b of
                   BodyThrows e \<Rightarrow> Inl (Uncaught e)
                 | Body result \<Rightarrow>
                     (case resp_errors result of
                        Some errs \<Rightarrow> Inl (Error QueryError (lit ''GraphQL error from pools subgraph.''))
                      | None \<Rightarrow>
                          Inr (case resp_data result of
                                 None \<Rightarrow> []
                               | Some d \<Rightarrow> (case liquidityPools d of None \<Rightarrow> [] | Some ps \<Rightarrow> ps))))))"

section \<open>The endpoint\<close>

definition SUBGRAPH_URLS :: "(jsstring \<times> jsstring) list" where
  "SUBGRAPH_URLS =
     [(lit ''56'', lit ''https://gateway.thegraph.com/api/[api-key]/deployments/id/QmPi9QJjaPfoTEwfNMiuqoZmTc1RGFi3DeZy4UERDDqSJn''),
      (lit ''137'', lit ''https://gateway.thegraph.com/api/[api-key]/deployments/id/Qmc3gbKAd1eemQbaTvY93S2FpuPEipGaVKCQ97pBkXgtyN''),
      (lit ''250'', lit ''https://gateway.thegraph.com/api/[api-key]/deployments/id/QmZ3Zs57Bt9njPji3Ty6A9761hwQaHYYGMCjs5f7oiidxz''),
      (lit ''1285'', lit ''https://gateway.thegraph.com/api/[api-key]/deployments/id/QmZw2kXL8tt6FoNeo4qLSN3rbe9tkWtGxDtBV3iWJMEkf7'')]"

text \<open>
  \<open>encodeURIComponent\<close> of ECMAScript: the letters, the digits and \<open>- _ . ! ~ * ' ( )\<close>
  stay; every other code point is written as the bytes of its UTF-8 encoding, each as
  \<open>%\<close> and two upper-case hexadecimal digits; a surrogate without its partner throws
  \<open>URIError\<close> (\<open>None\<close>).
\<close>

definition unreserved :: "jschar \<Rightarrow> bool" where
  "unreserved c \<longleftrightarrow>
     (0x41 \<le> c \<and> c \<le> 0x5A) \<or> (0x61 \<le> c \<and> c \<le> 0x7A) \<or> (0x30 \<le> c \<and> c \<le> 0x39)
     \<or> c \<in> {0x2D, 0x5F, 0x2E, 0x21, 0x7E, 0x2A, 0x27, 0x28, 0x29}"

definition hex_digit :: "nat \<Rightarrow> jschar" where
  "hex_digit n = (if n < 10 then of_nat (48 + n) else of_nat (55 + n))"

definition percent :: "nat \<Rightarrow> jsstring" where
  "percent b = [0x25, hex_digit (b div 16), hex_digit (b mod 16)]"

definition utf8 :: "nat \<Rightarrow> nat list" where
  "utf8 cp =
     (if cp < 0x80 then [cp]
      else if cp < 0x800 then [0xC0 + cp div 64, 0x80 + cp mod 64]
      else if cp < 0x10000 then [0xE0 + cp div 4096, 0x80 + cp div 64 mod 64, 0x80 + cp mod 64]
      else [0xF0 + cp div 262144, 0x80 + cp div 4096 mod 64, 0x80 + cp div 64 mod 64,
            0x80 + cp mod 64])"

definition escape :: "nat \<Rightarrow> jsstring" where
  "escape cp = concat (map percent (utf8 cp))"

definition is_lead :: "jschar \<Rightarrow> bool" where
  "is_lead c \<longleftrightarrow> 0xD800 \<le> c \<and> c \<le> 0xDBFF"

definition is_trail :: "jschar \<Rightarrow> bool" where
  "is_trail c \<longleftrightarrow> 0xDC00 \<le> c \<and> c \<le> 0xDFFF"

fun encodeURIComponent :: "jsstring \<Rightarrow> jsstring option" where
  "encodeURIComponent [] = Some []"
| "encodeURIComponent (c # s) =
     (if unreserved c then map_option (\<lambda>r. c # r) (encodeURIComponent s)
      else if is_trail c then None
      else if is_lead c then
        (case s of
           [] \<Rightarrow> None
         | d # s' \<Rightarrow>
             if is_trail d
             then map_option
                    (\<lambda>r. escape ((unat c - 0xD800) * 0x400 + (unat d - 0xDC00) + 0x10000) @ r)
                    (encodeURIComponent s')
             else None)
      else map_option (\<lambda>r. escape (unat c) @ r) (encodeURIComponent s))"

text \<open>
  Lines 221 to 231 of the source: the template of the chain with the encoded key in
  the place of \<open>[api-key]\<close>. A chain without a template and a URL that contains
  \<open>PLACEHOLDER\<close> are configuration errors.
\<close>

definition url_not_configured :: "jsstring \<Rightarrow> error" where
  "url_not_configured originalChainId =
     Error ConfigurationError
       (lit ''Subgraph URL not configured for Chain ID: '' @ originalChainId
        @ lit ''. Please provide the official Messari Sushiswap subgraph URL.'')"

definition resolveSubgraphUrl :: "jsstring \<Rightarrow> jsstring \<Rightarrow> jsstring \<Rightarrow> error + jsstring" where
  "resolveSubgraphUrl originalChainId chainKey apiKey =
     (case map_of SUBGRAPH_URLS chainKey of
        None \<Rightarrow> Inl (url_not_configured originalChainId)
      | Some template \<Rightarrow>
          (case encodeURIComponent apiKey of
             None \<Rightarrow> Inl (Uncaught (Exn (lit ''URIError'') (lit ''URI malformed'')))
           | Some key \<Rightarrow>
               let subgraphUrl = replace template (lit ''[api-key]'') key
               in if subgraphUrl = [] \<or> js_includes subgraphUrl (lit ''PLACEHOLDER'')
                  then Inl (url_not_configured originalChainId)
                  else Inr subgraphUrl))"

section \<open>Pagination\<close>

text \<open>
  The variables of the \<open>while\<close> loop of \<open>returnTags\<close>. \<open>isMore\<close> is true whenever the
  loop condition is tested with the other three in use, so it is not a field.
\<close>

record loop_state =
  lastId :: jsstring
  prevLastId :: jsstring
  allPools :: "LiquidityPool list"

definition cursor_stalled :: error where
  "cursor_stalled =
     Error PaginationStallError (lit ''Pagination cursor (pools) did not advance; aborting.'')"

text \<open>
  One round of the loop: either the function is left (by a \<open>throw\<close>, or with the
  pools collected when \<open>isMore\<close> is false), or the loop goes round again.
  \<open>page[page.length - 1]\<close> is read only when the page has 1000 records.
\<close>

datatype step =
  Leave "request list \<times> (error + LiquidityPool list)"
| Again "request list" loop_state

definition loop_body ::
  "network \<Rightarrow> jsstring \<Rightarrow> int \<Rightarrow> request list \<Rightarrow> loop_state \<Rightarrow> step" where
  "loop_body net subgraphUrl blockNumber hist st =
     (case fetchPools net hist subgraphUrl (lastId st) blockNumber of
        (hist', Inl e) \<Rightarrow> Leave (hist', Inl e)
      | (hist', Inr page) \<Rightarrow>
          let pools = allPools st @ page;
              isMore = (length page = 1000)
          in if isMore then
               (case pool_id (page ! (length page - 1)) of
                  None \<Rightarrow> Leave (hist', Inl cursor_stalled)
                | Some nextLastId \<Rightarrow>
                    if nextLastId = [] \<or> nextLastId = lastId st \<or> nextLastId = prevLastId st
                    then Leave (hist', Inl cursor_stalled)
                    else Again hist' \<lparr>lastId = nextLastId, prevLastId = lastId st, allPools = pools\<rparr>)
             else Leave (hist', Inr pools))"

text \<open>
  The loop may go on for ever (a source of full pages with ever new last identifiers):
  \<open>None\<close> is the run that does not return.
\<close>

partial_function (option) pagination_loop ::
  "network \<Rightarrow> jsstring \<Rightarrow> int \<Rightarrow> request list \<Rightarrow> loop_state
     \<Rightarrow> (request list \<times> (error + LiquidityPool list)) option" where
  "pagination_loop net subgraphUrl blockNumber hist st =
     (case loop_body net subgraphUrl blockNumber hist st of
        Leave r \<Rightarrow> Some r
      | Again hist' st' \<Rightarrow> pagination_loop net subgraphUrl blockNumber hist' st')"

section \<open>Main service\<close>

definition zero_address :: jsstring where
  "zero_address = lit ''0x0000000000000000000000000000000000000000''"

definition supportedChains :: "nat list" where
  "supportedChains = [56, 137, 250, 1285]"

definition unsupported_chain :: "jsstring \<Rightarrow> error" where
  "unsupported_chain originalChainId =
     Error ValidationError
       (lit ''Unsupported Chain ID: '' @ originalChainId
        @ lit ''. Only 56 (BNB Chain), 137 (Polygon), 250 (Fantom), and 1285 (Moonriver) are currently supported in this module.'')"

definition missing_api_key :: error where
  "missing_api_key =
     Error ValidationError (lit ''Missing API key. A The Graph gateway API key is required.'')"

text \<open>
  \<open>returnTags\<close>: the result is the list of the requests issued and either the error
  thrown or the tags; \<open>None\<close> when the pagination does not return.
\<close>

definition returnTags ::
  "network \<Rightarrow> jsstring \<Rightarrow> jsstring \<Rightarrow> (request list \<times> (error + ContractTag list)) option" where
  "returnTags net chainId apiKey =
     (let originalChainId = chainId;
          trimmedChainId = trim chainId
      in if \<not> all_digits trimmedChainId then Some ([], Inl (unsupported_chain originalChainId))
         else
           let chainIdNum = Number trimmedChainId
           in if chainIdNum \<notin> set supportedChains
              then Some ([], Inl (unsupported_chain originalChainId))
              else if apiKey = [] \<or> length (trim apiKey) = 0 then Some ([], Inl missing_api_key)
              else
                (case resolveSubgraphUrl originalChainId (String chainIdNum) apiKey of
                   Inl e \<Rightarrow> Some ([], Inl e)
                 | Inr subgraphUrl \<Rightarrow>
                     (case fetchIndexedBlockNumber net [] subgraphUrl of
                        (hist, Inl e) \<Rightarrow> Some (hist, Inl e)
                      | (hist, Inr blockNumber) \<Rightarrow>
                          (case pagination_loop net subgraphUrl blockNumber hist
                                  \<lparr>lastId = zero_address, prevLastId = [], allPools = []\<rparr> of
                             None \<Rightarrow> None
                           | Some (hist', Inl e) \<Rightarrow> Some (hist', Inl e)
                           | Some (hist', Inr pools) \<Rightarrow>
                               Some (hist', Inr (transformPoolsToTags (String chainIdNum) pools))))))"

section \<open>Notions used to state the properties\<close>

text \<open>
  What the transformer reads from one pool: the identifier of its LP token when it is
  present and not empty, and the trimmed symbol and name (empty when absent).
\<close>

definition lp_id :: "LiquidityPool \<Rightarrow> jsstring option" where
  "lp_id pool =
     (case outputToken pool of
        None \<Rightarrow> None
      | Some lpToken \<Rightarrow>
          (case token_id lpToken of
             None \<Rightarrow> None
           | Some lpId \<Rightarrow> if lpId = [] then None else Some lpId))"

definition lp_symbol :: "LiquidityPool \<Rightarrow> jsstring" where
  "lp_symbol pool =
     (case outputToken pool of
        None \<Rightarrow> []
      | Some lpToken \<Rightarrow> (case token_symbol lpToken of None \<Rightarrow> [] | Some s \<Rightarrow> trim s))"

definition lp_name :: "LiquidityPool \<Rightarrow> jsstring" where
  "lp_name pool =
     (case outputToken pool of
        None \<Rightarrow> []
      | Some lpToken \<Rightarrow> (case token_name lpToken of None \<Rightarrow> [] | Some s \<Rightarrow> trim s))"

definition address :: "jsstring \<Rightarrow> jsstring \<Rightarrow> jsstring" where
  "address chainId lpId = lit ''eip155:'' @ chainId @ lit '':'' @ lpId"

text \<open>The tags that one pool adds when its LP token has not been seen: one or none.\<close>

definition emitted :: "jsstring \<Rightarrow> LiquidityPool \<Rightarrow> ContractTag list" where
  "emitted chainId pool =
     (case lp_id pool of
        None \<Rightarrow> []
      | Some lpId \<Rightarrow>
          if lp_symbol pool = [] then []
          else [\<lparr>Contract_Address = address chainId lpId,
                 Public_Name_Tag = truncateString (lp_symbol pool @ lit '' Pool'') 45,
                 Project_Name = lit ''Sushi'',
                 UI_Website_Link = lit ''https://www.sushi.com/'',
                 Public_Note = lit ''Sushi's '' @ lp_symbol pool @ lit '' ('' @ lp_name pool
                               @ lit '') pool contract.''\<rparr>])"

text \<open>A pool that has nothing but an identifier and, possibly, an LP token.\<close>

definition pool_of :: "jsstring \<Rightarrow> token option \<Rightarrow> LiquidityPool" where
  "pool_of i t =
     \<lparr>pool_id = Some i, pool_name = [], pool_symbol = None, inputTokens = None,
      outputToken = t\<rparr>"

definition token_of :: "string \<Rightarrow> string \<Rightarrow> string \<Rightarrow> token" where
  "token_of i s n =
     \<lparr>token_id = Some (lit i), token_symbol = Some (lit s), token_name = Some (lit n)\<rparr>"

text \<open>The identifiers of the LP tokens of a list of pools.\<close>

definition lp_ids :: "LiquidityPool list \<Rightarrow> jsstring set" where
  "lp_ids pools = {i. Some i \<in> lp_id ` set pools}"

text \<open>Three pools: two of them with the same LP token identifier, one without LP token.\<close>

definition record_A :: LiquidityPool where
  "record_A = pool_of (lit ''0xpool1'') (Some (token_of ''0xaaa'' ''SLP'' ''Sushi LP Token''))"

definition record_B :: LiquidityPool where
  "record_B = pool_of (lit ''0xpool2'') None"

definition record_A2 :: LiquidityPool where
  "record_A2 = pool_of (lit ''0xpool3'') (Some (token_of ''0xaaa'' ''OTHER'' ''Other token''))"

definition long_symbol_pool :: LiquidityPool where
  "long_symbol_pool =
     pool_of (lit ''0xpool4'')
       (Some (token_of ''0xbbb'' '' AAAAAAAAAAAAAAAAAAAAAAAAAAAAAAAAAAAAAAAAA '' ''Long''))"

section \<open>Notions used to state the properties of the pagination\<close>

text \<open>
  The state in which \<open>returnTags\<close> enters its loop.
\<close>

definition first_state :: loop_state where
  "first_state = \<lparr>lastId = zero_address, prevLastId = [], allPools = []\<rparr>"

text \<open>
  Lines 198 to 234 of the source, that is \<open>returnTags\<close> up to its loop: the checks
  of the chain identifier and of the key, the endpoint, the block number. The result
  is the requests issued and either the error thrown or the chain number, the URL and
  the block number with which the loop starts.
\<close>

definition prelude ::
  "network \<Rightarrow> jsstring \<Rightarrow> jsstring \<Rightarrow> request list \<times> (error + nat \<times> jsstring \<times> int)" where
  "prelude net chainId apiKey =
     (if \<not> all_digits (trim chainId) then ([], Inl (unsupported_chain chainId))
      else if Number (trim chainId) \<notin> set supportedChains
      then ([], Inl (unsupported_chain chainId))
      else if apiKey = [] \<or> length (trim apiKey) = 0 then ([], Inl missing_api_key)
      else
        (case resolveSubgraphUrl chainId (String (Number (trim chainId))) apiKey of
           Inl e \<Rightarrow> ([], Inl e)
         | Inr subgraphUrl \<Rightarrow>
             (case fetchIndexedBlockNumber net [] subgraphUrl of
                (hist, Inl e) \<Rightarrow> (hist, Inl e)
              | (hist, Inr blockNumber) \<Rightarrow>
                  (hist, Inr (Number (trim chainId), subgraphUrl, blockNumber)))))"

text \<open>
  A run of the loop is described by the pages that the page fetcher returns, in
  order. The cursor after a full page is the identifier of its last record; the
  queries of a run carry the cursors one after the other; the pages are served when
  each query of the run is answered by its page.
\<close>

definition cursor_after :: "LiquidityPool list \<Rightarrow> jsstring" where
  "cursor_after page = (case pool_id (page ! (length page - 1)) of None \<Rightarrow> [] | Some n \<Rightarrow> n)"

fun queries :: "jsstring \<Rightarrow> int \<Rightarrow> jsstring \<Rightarrow> LiquidityPool list list \<Rightarrow> request list" where
  "queries url blk cur [] = []"
| "queries url blk cur (page # pages) =
     PoolsQuery url cur blk # queries url blk (cursor_after page) pages"

fun served ::
  "network \<Rightarrow> jsstring \<Rightarrow> int \<Rightarrow> request list \<Rightarrow> jsstring \<Rightarrow> LiquidityPool list list \<Rightarrow> bool" where
  "served net url blk hist cur [] = True"
| "served net url blk hist cur (page # pages) =
     (snd (fetchPools net hist url cur blk) = Inr page
      \<and> served net url blk (hist @ [PoolsQuery url cur blk]) (cursor_after page) pages)"

text \<open>
  Every page but the last has exactly 1000 records, the last has fewer.
\<close>

definition well_paged :: "LiquidityPool list list \<Rightarrow> bool" where
  "well_paged pages \<longleftrightarrow>
     pages \<noteq> [] \<and> list_all (\<lambda>p. length p = 1000) (butlast pages) \<and> length (last pages) < 1000"

text \<open>
  The check of the cursor, for each page of a list in turn: the identifier of the last
  record is present, not empty, and differs from the cursor of the query and from the
  cursor before that one.
\<close>

fun passes :: "jsstring \<Rightarrow> jsstring \<Rightarrow> LiquidityPool list list \<Rightarrow> bool" where
  "passes cur prev [] = True"
| "passes cur prev (page # pages) =
     (case pool_id (page ! (length page - 1)) of
        None \<Rightarrow> False
      | Some n \<Rightarrow> n \<noteq> [] \<and> n \<noteq> cur \<and> n \<noteq> prev \<and> passes n cur pages)"

text \<open>The variables of the loop after a list of full pages that pass the check.\<close>

fun state_after :: "loop_state \<Rightarrow> LiquidityPool list list \<Rightarrow> loop_state" where
  "state_after st [] = st"
| "state_after st (page # pages) =
     state_after
       \<lparr>lastId = cursor_after page, prevLastId = lastId st, allPools = allPools st @ page\<rparr> pages"

text \<open>
  A data source for examples: it answers the metadata query with a block number and
  the \<open>k\<close>-th pools query with the \<open>k\<close>-th page of a list, whatever the cursor.
\<close>

definition answer :: "GraphQLData \<Rightarrow> http_result" where
  "answer d = Response True 200 (Body \<lparr>resp_data = Some d, resp_errors = None\<rparr>)"

definition scripted :: "int \<Rightarrow> LiquidityPool list list \<Rightarrow> network" where
  "scripted blk pages hist req =
     (case req of
        MetaQuery url \<Rightarrow> answer \<lparr>liquidityPools = None, meta_block_number = Some blk\<rparr>
      | PoolsQuery url cur b \<Rightarrow>
          answer \<lparr>liquidityPools =
                    Some (if length hist - 1 < length pages then pages ! (length hist - 1) else []),
                  meta_block_number = None\<rparr>)"

text \<open>The endpoint of chain 137 with the key \<open>key\<close>.\<close>

definition key_url :: jsstring where
  "key_url = lit ''https://gateway.thegraph.com/api/key/deployments/id/Qmc3gbKAd1eemQbaTvY93S2FpuPEipGaVKCQ97pBkXgtyN''"

text \<open>Full pages of 1000 records without LP token, all with the same identifier.\<close>

definition full_page :: "jsstring \<Rightarrow> LiquidityPool list" where
  "full_page i = replicate 1000 (pool_of i None)"

definition ascending_pages :: "LiquidityPool list list" where
  "ascending_pages = [full_page (lit ''0x1''), [record_A, record_B]]"

definition backwards_pages :: "LiquidityPool list list" where
  "backwards_pages = [full_page (lit ''0x2''), full_page (lit ''0x1''), [record_A]]"

text \<open>
  A list of cursors in which every cursor after the first is not empty and differs
  from the cursor before it and from the one before that (\<open>prev\<close> for the second cursor
  of the list).
\<close>

fun changing :: "jsstring \<Rightarrow> jsstring list \<Rightarrow> bool" where
  "changing prev (c # d # cs) = (d \<noteq> [] \<and> d \<noteq> c \<and> d \<noteq> prev \<and> changing c (d # cs))"
| "changing prev cs = True"

definition oscillating_pages :: "LiquidityPool list list" where
  "oscillating_pages = [full_page (lit ''0x1''), full_page zero_address]"

text \<open>
  What \<open>id_gt\<close> means for the data source: every record of a page has an identifier
  that is greater than the cursor of the query of the page. A source that honours it
  does so for every query. A request starts from the all-zero address when it is the
  metadata query or a pools query whose cursor is not below that address.
\<close>

definition id_above :: "jsstring \<Rightarrow> LiquidityPool \<Rightarrow> bool" where
  "id_above cur p = (case pool_id p of None \<Rightarrow> False | Some i \<Rightarrow> cur < i)"

definition honours_id_gt :: "network \<Rightarrow> bool" where
  "honours_id_gt net \<longleftrightarrow>
     (\<forall>hist url cur blk page.
        snd (fetchPools net hist url cur blk) = Inr page \<longrightarrow> list_all (id_above cur) page)"

definition from_zero :: "request \<Rightarrow> bool" where
  "from_zero req = (case req of MetaQuery url \<Rightarrow> True | PoolsQuery url cur blk \<Rightarrow> zero_address \<le> cur)"

definition id_gt_source :: "int \<Rightarrow> LiquidityPool list \<Rightarrow> network" where
  "id_gt_source blk pools hist req =
     (case req of
        MetaQuery url \<Rightarrow> answer \<lparr>liquidityPools = None, meta_block_number = Some blk\<rparr>
      | PoolsQuery url cur b \<Rightarrow>
          answer \<lparr>liquidityPools = Some (take 1000 (filter (id_above cur) pools)),
                  meta_block_number = None\<rparr>)"

definition zero_pool :: LiquidityPool where
  "zero_pool = pool_of zero_address (Some (token_of ''0xccc'' ''ZERO'' ''Zero''))"


text \<open>The tag of the LP token \<open>0xaaa\<close> on chain 137.\<close>

definition example_tag :: ContractTag where
  "example_tag =
     \<lparr>Contract_Address = lit ''eip155:137:0xaaa'',
      Public_Name_Tag = lit ''SLP Pool'',
      Project_Name = lit ''Sushi'',
      UI_Website_Link = lit ''https://www.sushi.com/'',
      Public_Note = lit ''Sushi's SLP (Sushi LP Token) pool contract.''\<rparr>"

section \<open>Properties of the transformer\<close>

lemma length_lit [simp]: "length (lit s) = length s"
  by (simp add: lit_def)

lemma transform_loop_step:
  "transform_loop chainId (pool # pools) tags seen =
     (case lp_id pool of
        None \<Rightarrow> transform_loop chainId pools tags seen
      | Some lpId \<Rightarrow>
          if lpId \<in> seen then transform_loop chainId pools tags seen
          else transform_loop chainId pools (tags @ emitted chainId pool) (insert lpId seen))"
  by (auto simp: lp_id_def lp_symbol_def lp_name_def emitted_def address_def Let_def
           split: option.splits)

lemma transform_loop_acc:
  "transform_loop chainId pools tags seen = tags @ transform_loop chainId pools [] seen"
proof (induction pools arbitrary: tags seen)
  case Nil
  show ?case by simp
next
  case (Cons pool pools)
  show ?case
    unfolding transform_loop_step
    using Cons.IH [of "tags @ emitted chainId pool"] Cons.IH [of "emitted chainId pool"]
      Cons.IH [of tags]
    by (simp split: option.splits)
qed

declare transform_loop.simps(2) [simp del]

lemma lp_ids_Nil [simp]: "lp_ids [] = {}"
  by (simp add: lp_ids_def)

lemma lp_ids_Cons:
  "lp_ids (p # ps) = (case lp_id p of None \<Rightarrow> lp_ids ps | Some i \<Rightarrow> insert i (lp_ids ps))"
  by (auto simp: lp_ids_def split: option.splits)

lemma lp_ids_append [simp]: "lp_ids (ps @ qs) = lp_ids ps \<union> lp_ids qs"
  by (auto simp: lp_ids_def)


lemma address_inj [simp]: "address c i = address c j \<longleftrightarrow> i = j"
  by (simp add: address_def)

lemma emitted_cases:
  "emitted c p = [] \<or> (\<exists>i t. lp_id p = Some i \<and> emitted c p = [t] \<and> Contract_Address t = address c i)"
  by (auto simp: emitted_def split: option.splits)

lemma emitted_address:
  "t \<in> set (emitted c p) \<Longrightarrow> lp_id p = Some i \<Longrightarrow> Contract_Address t = address c i"
  using emitted_cases [of c p] by auto

lemma emitted_lp_id: "t \<in> set (emitted c p) \<Longrightarrow> \<exists>i. lp_id p = Some i"
  using emitted_cases [of c p] by auto

lemma transform_loop_append:
  "transform_loop c (ps @ qs) tags seen =
     transform_loop c qs (transform_loop c ps tags seen) (seen \<union> lp_ids ps)"
proof (induction ps arbitrary: tags seen)
  case Nil
  show ?case by simp
next
  case (Cons p ps)
  show ?case
  proof (cases "lp_id p")
    case None
    then show ?thesis
      using Cons.IH [of tags seen] by (simp add: transform_loop_step lp_ids_Cons)
  next
    case (Some i)
    show ?thesis
    proof (cases "i \<in> seen")
      case True
      then have "seen \<union> insert i (lp_ids ps) = seen \<union> lp_ids ps" by auto
      then show ?thesis
        using Some True Cons.IH [of tags seen] by (simp add: transform_loop_step lp_ids_Cons)
    next
      case False
      then show ?thesis
        using Some Cons.IH [of "tags @ emitted c p" "insert i seen"]
        by (simp add: transform_loop_step lp_ids_Cons)
    qed
  qed
qed

lemma transform_loop_sources:
  "t \<in> set (transform_loop c ps [] seen) \<Longrightarrow>
     \<exists>i. i \<in> lp_ids ps \<and> i \<notin> seen \<and> Contract_Address t = address c i"
proof (induction ps arbitrary: seen)
  case Nil
  then show ?case by simp
next
  case (Cons p ps)
  show ?case
  proof (cases "lp_id p")
    case None
    then show ?thesis
      using Cons.prems Cons.IH [of seen] by (auto simp: transform_loop_step lp_ids_Cons)
  next
    case (Some i)
    show ?thesis
    proof (cases "i \<in> seen")
      case True
      then show ?thesis
        using Some Cons.prems Cons.IH [of seen] by (auto simp: transform_loop_step lp_ids_Cons)
    next
      case False
      have "t \<in> set (emitted c p) \<or> t \<in> set (transform_loop c ps [] (insert i seen))"
        using Some False Cons.prems transform_loop_acc [of c ps "emitted c p" "insert i seen"]
        by (auto simp: transform_loop_step)
      then show ?thesis
      proof
        assume "t \<in> set (emitted c p)"
        then have "Contract_Address t = address c i"
          using Some by (rule emitted_address)
        with Some False show ?thesis by (auto simp: lp_ids_Cons)
      next
        assume "t \<in> set (transform_loop c ps [] (insert i seen))"
        from Cons.IH [OF this] Some show ?thesis by (auto simp: lp_ids_Cons)
      qed
    qed
  qed
qed

lemma transform_loop_distinct:
  "distinct (map Contract_Address (transform_loop c ps [] seen))"
proof (induction ps arbitrary: seen)
  case Nil
  show ?case by simp
next
  case (Cons p ps)
  show ?case
  proof (cases "lp_id p")
    case None
    then show ?thesis using Cons.IH [of seen] by (simp add: transform_loop_step)
  next
    case (Some i)
    show ?thesis
    proof (cases "i \<in> seen")
      case True
      then show ?thesis using Some Cons.IH [of seen] by (simp add: transform_loop_step)
    next
      case False
      have split: "transform_loop c (p # ps) [] seen =
                     emitted c p @ transform_loop c ps [] (insert i seen)"
        using Some False transform_loop_acc [of c ps "emitted c p" "insert i seen"]
        by (simp add: transform_loop_step)
      have fresh: "Contract_Address t \<noteq> address c i"
        if "t \<in> set (transform_loop c ps [] (insert i seen))" for t
        using transform_loop_sources [OF that] by auto
      have "distinct (map Contract_Address (emitted c p))"
        using emitted_cases [of c p] by auto
      moreover have "Contract_Address t = address c i" if "t \<in> set (emitted c p)" for t
        using that Some by (rule emitted_address)
      ultimately have "set (map Contract_Address (emitted c p))
                         \<inter> set (map Contract_Address (transform_loop c ps [] (insert i seen))) = {}"
        and "distinct (map Contract_Address (emitted c p))"
        using fresh by fastforce+
      then show ?thesis
        unfolding split using Cons.IH [of "insert i seen"] by simp
    qed
  qed
qed


lemma transform_single: "transform_loop c [p] [] seen = (case lp_id p of None \<Rightarrow> [] | Some i \<Rightarrow> if i \<in> seen then [] else emitted c p)"
  by (simp add: transform_loop_step split: option.splits)

lemma transform_loop_seen_drop:
  "lp_id p = Some i \<Longrightarrow> i \<in> seen \<Longrightarrow> transform_loop c (p # rs) tags seen = transform_loop c rs tags seen"
  by (simp add: transform_loop_step)

lemma later_duplicate_dropped:
  assumes "lp_id p = Some i" and "i \<in> lp_ids ps"
  shows "transformPoolsToTags c (ps @ p # rs) = transformPoolsToTags c (ps @ rs)"
  unfolding transformPoolsToTags_def transform_loop_append
  using assms by (simp add: transform_loop_step)

lemma filter_no_address:
  "(\<And>t. t \<in> set ts \<Longrightarrow> Contract_Address t \<noteq> a) \<Longrightarrow> filter (\<lambda>t. Contract_Address t = a) ts = []"
  by (induction ts) auto

lemma filter_all_address:
  "(\<And>t. t \<in> set ts \<Longrightarrow> Contract_Address t = a) \<Longrightarrow> filter (\<lambda>t. Contract_Address t = a) ts = ts"
  by (induction ts) auto

lemma first_occurrence_tag:
  assumes p: "lp_id p = Some i" and fresh: "i \<notin> lp_ids ps"
  shows "filter (\<lambda>t. Contract_Address t = address c i) (transformPoolsToTags c (ps @ p # rs)) =
           transformPoolsToTags c [p]"
proof -
  let ?before = "transform_loop c ps [] {}"
  let ?after = "transform_loop c rs [] (insert i (lp_ids ps))"
  have whole: "transformPoolsToTags c (ps @ p # rs) = ?before @ emitted c p @ ?after"
  proof -
    have "transformPoolsToTags c (ps @ p # rs) = transform_loop c (p # rs) ?before (lp_ids ps)"
      by (simp add: transformPoolsToTags_def transform_loop_append)
    also have "\<dots> = transform_loop c rs (?before @ emitted c p) (insert i (lp_ids ps))"
      using p fresh by (simp add: transform_loop_step)
    also have "\<dots> = (?before @ emitted c p) @ ?after"
      by (rule transform_loop_acc)
    finally show ?thesis by simp
  qed
  have before: "filter (\<lambda>t. Contract_Address t = address c i) ?before = []"
  proof (rule filter_no_address)
    fix t assume "t \<in> set ?before"
    from transform_loop_sources [OF this] fresh
    show "Contract_Address t \<noteq> address c i" by auto
  qed
  have after: "filter (\<lambda>t. Contract_Address t = address c i) ?after = []"
  proof (rule filter_no_address)
    fix t assume "t \<in> set ?after"
    from transform_loop_sources [OF this]
    show "Contract_Address t \<noteq> address c i" by auto
  qed
  have here: "filter (\<lambda>t. Contract_Address t = address c i) (emitted c p) = emitted c p"
    by (rule filter_all_address) (rule emitted_address [OF _ p])
  have "transformPoolsToTags c [p] = emitted c p"
    using p by (simp add: transformPoolsToTags_def transform_single)
  then show ?thesis
    by (simp add: whole before after here)
qed

lemma one_tag_per_id:
  "length (filter (\<lambda>t. Contract_Address t = address c i) (transformPoolsToTags c pools)) \<le> 1"
proof -
  have "distinct (map Contract_Address (transformPoolsToTags c pools))"
    unfolding transformPoolsToTags_def by (rule transform_loop_distinct)
  then have "distinct (filter (\<lambda>a. a = address c i) (map Contract_Address (transformPoolsToTags c pools)))"
    by (rule distinct_filter)
  moreover have "set (filter (\<lambda>a. a = address c i) (map Contract_Address (transformPoolsToTags c pools))) \<subseteq> {address c i}"
    by auto
  ultimately have "length (filter (\<lambda>a. a = address c i) (map Contract_Address (transformPoolsToTags c pools))) \<le> 1"
    by (metis card_mono distinct_card finite.emptyI finite.insertI card.empty card_insert_if One_nat_def empty_iff)
  moreover have "filter (\<lambda>a. a = address c i) (map Contract_Address ts) = map Contract_Address (filter (\<lambda>t. Contract_Address t = address c i) ts)" for ts
    by (simp add: filter_map comp_def)
  ultimately show ?thesis by (simp add: comp_def)
qed

text \<open>
  C5. Whatever the list of pools, the tags of \<open>transformPoolsToTags\<close> have pairwise
  different addresses, each address is made from the LP token identifier of one of the
  pools, and no identifier has more than one tag. A pool whose LP token identifier
  occurs in an earlier pool changes nothing. The tags with the identifier of a pool
  that is the first with this identifier are the tags of that pool alone. A pool
  given twice gives what it gives once, and that is exactly one tag when the pool has
  an LP token identifier and a symbol that is not blank.
\<close>

theorem first_occurrence_wins:
  "distinct (map Contract_Address (transformPoolsToTags c pools))
   \<and> (\<forall>t\<in>set (transformPoolsToTags c pools). \<exists>j\<in>lp_ids pools. Contract_Address t = address c j)
   \<and> length (filter (\<lambda>t. Contract_Address t = address c i) (transformPoolsToTags c pools)) \<le> 1
   \<and> (lp_id p = Some i \<and> i \<in> lp_ids ps \<longrightarrow>
        transformPoolsToTags c (ps @ p # rs) = transformPoolsToTags c (ps @ rs))
   \<and> (lp_id p = Some i \<and> i \<notin> lp_ids ps \<longrightarrow>
        filter (\<lambda>t. Contract_Address t = address c i) (transformPoolsToTags c (ps @ p # rs)) =
          transformPoolsToTags c [p])
   \<and> transformPoolsToTags c [p, p] = transformPoolsToTags c [p]
   \<and> (lp_id p \<noteq> None \<and> lp_symbol p \<noteq> [] \<longrightarrow> length (transformPoolsToTags c [p, p]) = 1)"
proof (intro conjI impI ballI)
  show "distinct (map Contract_Address (transformPoolsToTags c pools))"
    unfolding transformPoolsToTags_def by (rule transform_loop_distinct)
  show "\<exists>j\<in>lp_ids pools. Contract_Address t = address c j"
    if "t \<in> set (transformPoolsToTags c pools)" for t
    using transform_loop_sources [OF that [unfolded transformPoolsToTags_def]] by auto
  show "length (filter (\<lambda>t. Contract_Address t = address c i) (transformPoolsToTags c pools)) \<le> 1"
    by (rule one_tag_per_id)
  show "transformPoolsToTags c (ps @ p # rs) = transformPoolsToTags c (ps @ rs)"
    if "lp_id p = Some i \<and> i \<in> lp_ids ps"
    using that later_duplicate_dropped by blast
  show "filter (\<lambda>t. Contract_Address t = address c i) (transformPoolsToTags c (ps @ p # rs)) =
          transformPoolsToTags c [p]"
    if "lp_id p = Some i \<and> i \<notin> lp_ids ps"
    using that first_occurrence_tag by blast
  show twice: "transformPoolsToTags c [p, p] = transformPoolsToTags c [p]"
    by (simp add: transformPoolsToTags_def transform_loop_step split: option.splits)
  show "length (transformPoolsToTags c [p, p]) = 1" if "lp_id p \<noteq> None \<and> lp_symbol p \<noteq> []"
    unfolding twice using that
    by (auto simp: transformPoolsToTags_def transform_single emitted_def)
qed

lemma lp_id_record_A2: "lp_id record_A2 = Some (lit ''0xaaa'')"
  by (simp add: lp_id_def record_A2_def pool_of_def token_of_def lit_def)

lemma lp_ids_A_B: "lit ''0xaaa'' \<in> lp_ids [record_A, record_B]"
  by (simp add: lp_ids_Cons lp_id_def record_A_def record_B_def pool_of_def token_of_def lit_def)

lemma lp_symbol_record_A2: "lp_symbol record_A2 = lit ''OTHER''"
  by (simp add: lp_symbol_def record_A2_def pool_of_def token_of_def lit_def trim_def
        is_space_def)

theorem first_occurrence_wins_witness:
  "transformPoolsToTags (lit ''137'') [record_A, record_B, record_A2] =
     transformPoolsToTags (lit ''137'') [record_A, record_B]
   \<and> length (transformPoolsToTags (lit ''137'') [record_A2, record_A2]) = 1
   \<and> distinct (map Contract_Address
                  (transformPoolsToTags (lit ''137'') [record_A, record_B, record_A2]))"
proof -
  have dup: "lp_id record_A2 = Some (lit ''0xaaa'') \<and> lit ''0xaaa'' \<in> lp_ids [record_A, record_B]"
    using lp_id_record_A2 lp_ids_A_B by simp
  have ok: "lp_id record_A2 \<noteq> None \<and> lp_symbol record_A2 \<noteq> []"
    using lp_id_record_A2 lp_symbol_record_A2 by (simp add: lit_def)
  note w = first_occurrence_wins [of "lit ''137''" "[record_A, record_B, record_A2]"
      "lit ''0xaaa''" record_A2 "[record_A, record_B]" "[]"]
  from w dup have "transformPoolsToTags (lit ''137'') ([record_A, record_B] @ [record_A2]) =
      transformPoolsToTags (lit ''137'') ([record_A, record_B] @ [])"
    by blast
  then have dropped: "transformPoolsToTags (lit ''137'') [record_A, record_B, record_A2] =
      transformPoolsToTags (lit ''137'') [record_A, record_B]"
    by (simp only: append_Cons append_Nil)
  from w ok have one: "length (transformPoolsToTags (lit ''137'') [record_A2, record_A2]) = 1"
    by blast
  from w have "distinct (map Contract_Address
                  (transformPoolsToTags (lit ''137'') [record_A, record_B, record_A2]))"
    by blast
  with dropped one show ?thesis by blast
qed

lemma transform_loop_subset:
  "set (transform_loop c pools tags seen) \<subseteq> set tags \<union> (\<Union>p\<in>set pools. set (emitted c p))"
proof (induction pools arbitrary: tags seen)
  case Nil
  show ?case by simp
next
  case (Cons pool pools)
  show ?case
  proof (cases "lp_id pool")
    case None
    then show ?thesis
      using Cons.IH [of tags seen] by (auto simp: transform_loop_step)
  next
    case (Some i)
    then show ?thesis
      using Cons.IH [of tags seen] Cons.IH [of "tags @ emitted c pool" "insert i seen"]
      by (auto simp: transform_loop_step)
  qed
qed

lemma emitted_label:
  "t \<in> set (emitted chainId pool) \<Longrightarrow>
     lp_symbol pool \<noteq> []
     \<and> Public_Name_Tag t =
         (if length (lp_symbol pool) + 5 > 45
          then take 42 (lp_symbol pool @ lit '' Pool'') @ lit ''...''
          else lp_symbol pool @ lit '' Pool'')"
  by (auto simp: emitted_def truncateString_def split: option.splits if_splits)

lemma emitted_label_bound:
  "t \<in> set (emitted chainId pool) \<Longrightarrow> length (Public_Name_Tag t) \<le> 45"
  by (auto simp: emitted_def truncateString_def split: option.splits if_splits)

text \<open>
  C4. A pool whose LP token has an identifier and a symbol that trims to a non-empty
  \<open>s\<close> gets the label \<open>s Pool\<close> when \<open>length s + 5\<close> is at most 45; otherwise the
  label is the first 42 code units of \<open>s Pool\<close> followed by \<open>...\<close>, which has length
  45 and ends with \<open>...\<close>. Every tag of every list of pools has a label made in
  this way from the trimmed, non-empty symbol of one of the pools, and no label is
  longer than 45.
\<close>

theorem truncation_law:
  assumes "outputToken pool = Some lpToken"
    and "token_id lpToken = Some lpId" and "lpId \<noteq> []"
    and "token_symbol lpToken = Some symbol" and "trim symbol = s" and "s \<noteq> []"
  shows "map Public_Name_Tag (transformPoolsToTags chainId [pool]) =
           [if length s + 5 > 45 then take 42 (s @ lit '' Pool'') @ lit ''...''
            else s @ lit '' Pool'']
         \<and> (length s + 5 > 45 \<longrightarrow>
              length (take 42 (s @ lit '' Pool'') @ lit ''...'') = 45
              \<and> suffix (lit ''...'') (take 42 (s @ lit '' Pool'') @ lit ''...''))
         \<and> (\<forall>t\<in>set (transformPoolsToTags chainId pools). length (Public_Name_Tag t) \<le> 45)
         \<and> (\<forall>t\<in>set (transformPoolsToTags chainId pools). \<exists>p\<in>set pools.
               lp_symbol p \<noteq> []
               \<and> Public_Name_Tag t =
                   (if length (lp_symbol p) + 5 > 45
                    then take 42 (lp_symbol p @ lit '' Pool'') @ lit ''...''
                    else lp_symbol p @ lit '' Pool''))"
proof (intro conjI)
  have "lp_id pool = Some lpId" "lp_symbol pool = s"
    using assms by (simp_all add: lp_id_def lp_symbol_def)
  then show "map Public_Name_Tag (transformPoolsToTags chainId [pool]) =
           [if length s + 5 > 45 then take 42 (s @ lit '' Pool'') @ lit ''...''
            else s @ lit '' Pool'']"
    using \<open>s \<noteq> []\<close>
    by (simp add: transformPoolsToTags_def transform_loop_step emitted_def truncateString_def)
  show "length s + 5 > 45 \<longrightarrow>
              length (take 42 (s @ lit '' Pool'') @ lit ''...'') = 45
              \<and> suffix (lit ''...'') (take 42 (s @ lit '' Pool'') @ lit ''...'')"
    by (auto simp: suffix_def)
  show "\<forall>t\<in>set (transformPoolsToTags chainId pools). length (Public_Name_Tag t) \<le> 45"
    unfolding transformPoolsToTags_def
    using transform_loop_subset [of chainId pools "[]" "{}"] emitted_label_bound by fastforce
  show "\<forall>t\<in>set (transformPoolsToTags chainId pools). \<exists>p\<in>set pools.
               lp_symbol p \<noteq> []
               \<and> Public_Name_Tag t =
                   (if length (lp_symbol p) + 5 > 45
                    then take 42 (lp_symbol p @ lit '' Pool'') @ lit ''...''
                    else lp_symbol p @ lit '' Pool'')"
  proof
    fix t assume "t \<in> set (transformPoolsToTags chainId pools)"
    then obtain p where "p \<in> set pools" and "t \<in> set (emitted chainId p)"
      using transform_loop_subset [of chainId pools "[]" "{}"]
      by (auto simp: transformPoolsToTags_def)
    with emitted_label [of t chainId p]
    show "\<exists>p\<in>set pools.
               lp_symbol p \<noteq> []
               \<and> Public_Name_Tag t =
                   (if length (lp_symbol p) + 5 > 45
                    then take 42 (lp_symbol p @ lit '' Pool'') @ lit ''...''
                    else lp_symbol p @ lit '' Pool'')"
      by blast
  qed
qed

lemma trim_long_symbol:
  "trim (lit '' AAAAAAAAAAAAAAAAAAAAAAAAAAAAAAAAAAAAAAAAA '') =
     lit ''AAAAAAAAAAAAAAAAAAAAAAAAAAAAAAAAAAAAAAAAA''"
  by (simp add: lit_def trim_def is_space_def)

theorem truncation_law_witness:
  "map Public_Name_Tag (transformPoolsToTags (lit ''137'') [long_symbol_pool]) =
     [lit ''AAAAAAAAAAAAAAAAAAAAAAAAAAAAAAAAAAAAAAAAA ...'']
   \<and> length (lit ''AAAAAAAAAAAAAAAAAAAAAAAAAAAAAAAAAAAAAAAAA ...'') = 45"
  using truncation_law [of long_symbol_pool
      "token_of ''0xbbb'' '' AAAAAAAAAAAAAAAAAAAAAAAAAAAAAAAAAAAAAAAAA '' ''Long''"
      "lit ''0xbbb''" "lit '' AAAAAAAAAAAAAAAAAAAAAAAAAAAAAAAAAAAAAAAAA ''"
      "lit ''AAAAAAAAAAAAAAAAAAAAAAAAAAAAAAAAAAAAAAAAA''" "lit ''137''" "[]"]
  by (simp add: long_symbol_pool_def pool_of_def token_of_def trim_long_symbol)
     (simp add: lit_def)

section \<open>Properties of the page fetcher\<close>

text \<open>
  C7. When the answer to the pools query has a successful HTTP status, a body that
  can be read and no \<open>errors\<close> field, and its \<open>data\<close> field or the \<open>liquidityPools\<close>
  field of its data is absent, \<open>fetchPools\<close> returns the empty page and no error.
\<close>

theorem fetchPools_missing_data:
  assumes "net hist (PoolsQuery subgraphUrl cursor blockNumber) =
             Response True status (Body result)"
    and "resp_errors result = None"
    and "resp_data result = None
         \<or> (\<exists>d. resp_data result = Some d \<and> liquidityPools d = None)"
  shows "fetchPools net hist subgraphUrl cursor blockNumber =
           (hist @ [PoolsQuery subgraphUrl cursor blockNumber], Inr [])"
  using assms by (auto simp: fetchPools_def)

theorem fetchPools_missing_data_witness:
  "fetchPools
     (\<lambda>hist req. Response True 200
        (Body \<lparr>resp_data = Some \<lparr>liquidityPools = None, meta_block_number = None\<rparr>,
               resp_errors = None\<rparr>))
     [] (lit ''u'') zero_address 7 =
   ([PoolsQuery (lit ''u'') zero_address 7], Inr [])"
  using fetchPools_missing_data [of
      "\<lambda>hist req. Response True 200
        (Body \<lparr>resp_data = Some \<lparr>liquidityPools = None, meta_block_number = None\<rparr>,
               resp_errors = None\<rparr>)"
      "[]" "lit ''u''" zero_address 7 200
      "\<lparr>resp_data = Some \<lparr>liquidityPools = None, meta_block_number = None\<rparr>,
        resp_errors = None\<rparr>"]
  by simp

section \<open>Properties of the pagination\<close>

lemma fst_fetchPools [simp]:
  "fst (fetchPools net hist url cur blk) = hist @ [PoolsQuery url cur blk]"
  by (simp add: fetchPools_def Let_def)

lemma fetchPools_eq:
  "fetchPools net hist url cur blk = (hist @ [PoolsQuery url cur blk], snd (fetchPools net hist url cur blk))"
  by (metis fst_fetchPools prod.collapse)

lemma pagination_loop_leave:
  "loop_body net url blk hist st = Leave r \<Longrightarrow> pagination_loop net url blk hist st = Some r"
  by (subst pagination_loop.simps) simp

lemma pagination_loop_again:
  "loop_body net url blk hist st = Again hist' st' \<Longrightarrow>
     pagination_loop net url blk hist st = pagination_loop net url blk hist' st'"
  by (subst pagination_loop.simps) simp

lemma loop_body_error:
  "snd (fetchPools net hist url (lastId st) blk) = Inl e \<Longrightarrow>
     loop_body net url blk hist st = Leave (hist @ [PoolsQuery url (lastId st) blk], Inl e)"
  by (subst loop_body_def, subst fetchPools_eq) simp

lemma loop_body_final:
  "snd (fetchPools net hist url (lastId st) blk) = Inr page \<Longrightarrow> length page \<noteq> 1000 \<Longrightarrow>
     loop_body net url blk hist st =
       Leave (hist @ [PoolsQuery url (lastId st) blk], Inr (allPools st @ page))"
  by (subst loop_body_def, subst fetchPools_eq) simp

lemma loop_body_full:
  "snd (fetchPools net hist url (lastId st) blk) = Inr page \<Longrightarrow> length page = 1000 \<Longrightarrow>
     loop_body net url blk hist st =
       (case pool_id (page ! 999) of
          None \<Rightarrow> Leave (hist @ [PoolsQuery url (lastId st) blk], Inl cursor_stalled)
        | Some n \<Rightarrow>
            if n = [] \<or> n = lastId st \<or> n = prevLastId st
            then Leave (hist @ [PoolsQuery url (lastId st) blk], Inl cursor_stalled)
            else Again (hist @ [PoolsQuery url (lastId st) blk])
                   \<lparr>lastId = n, prevLastId = lastId st, allPools = allPools st @ page\<rparr>)"
  by (subst loop_body_def, subst fetchPools_eq) (simp add: Let_def)

lemma loop_after_full_pages:
  assumes "list_all (\<lambda>p. length p = 1000) pages"
    and "served net url blk hist (lastId st) pages"
    and "passes (lastId st) (prevLastId st) pages"
  shows "pagination_loop net url blk hist st =
           pagination_loop net url blk (hist @ queries url blk (lastId st) pages) (state_after st pages)"
  using assms
proof (induction pages arbitrary: hist st)
  case Nil
  show ?case by simp
next
  case (Cons page pages)
  from Cons.prems(3) obtain n where n: "pool_id (page ! 999) = Some n"
    and ok: "n \<noteq> []" "n \<noteq> lastId st" "n \<noteq> prevLastId st"
    and rest: "passes n (lastId st) pages"
    using Cons.prems(1) by (auto split: option.splits)
  let ?st' = "\<lparr>lastId = n, prevLastId = lastId st, allPools = allPools st @ page\<rparr>"
  let ?hist' = "hist @ [PoolsQuery url (lastId st) blk]"
  have ca: "cursor_after page = n"
    using n Cons.prems(1) by (simp add: cursor_after_def)
  have "loop_body net url blk hist st = Again ?hist' ?st'"
    using Cons.prems(1,2) n ok by (simp add: loop_body_full)
  then have "pagination_loop net url blk hist st = pagination_loop net url blk ?hist' ?st'"
    by (rule pagination_loop_again)
  also have "\<dots> = pagination_loop net url blk (?hist' @ queries url blk (lastId ?st') pages)
                     (state_after ?st' pages)"
    using Cons.prems(1,2) rest ca by (intro Cons.IH) simp_all
  finally show ?case by (simp add: ca)
qed


lemma loop_final_page:
  assumes "list_all (\<lambda>p. length p = 1000) pages"
    and "served net url blk hist (lastId st) (pages @ [page])"
    and "passes (lastId st) (prevLastId st) pages"
    and "length page \<noteq> 1000"
  shows "pagination_loop net url blk hist st =
           Some (hist @ queries url blk (lastId st) (pages @ [page]),
                 Inr (allPools st @ concat (pages @ [page])))"
  using assms(1-3)
proof (induction pages arbitrary: hist st)
  case Nil
  then have "loop_body net url blk hist st =
               Leave (hist @ [PoolsQuery url (lastId st) blk], Inr (allPools st @ page))"
    using assms(4) by (simp add: loop_body_final)
  then show ?case by (simp add: pagination_loop_leave)
next
  case (Cons p pages)
  from Cons.prems(3) obtain n where n: "pool_id (p ! 999) = Some n"
    and ok: "n \<noteq> []" "n \<noteq> lastId st" "n \<noteq> prevLastId st"
    and rest: "passes n (lastId st) pages"
    using Cons.prems(1) by (auto split: option.splits)
  let ?st' = "\<lparr>lastId = n, prevLastId = lastId st, allPools = allPools st @ p\<rparr>"
  let ?hist' = "hist @ [PoolsQuery url (lastId st) blk]"
  have ca: "cursor_after p = n"
    using n Cons.prems(1) by (simp add: cursor_after_def)
  have "loop_body net url blk hist st = Again ?hist' ?st'"
    using Cons.prems(1,2) n ok by (simp add: loop_body_full)
  then have "pagination_loop net url blk hist st = pagination_loop net url blk ?hist' ?st'"
    by (rule pagination_loop_again)
  also have "\<dots> = Some (?hist' @ queries url blk (lastId ?st') (pages @ [page]),
                         Inr (allPools ?st' @ concat (pages @ [page])))"
    using Cons.prems(1,2) rest ca by (intro Cons.IH) simp_all
  finally show ?case by (simp add: ca)
qed

lemma loop_stalled_page:
  assumes "list_all (\<lambda>p. length p = 1000) (pages @ [page])"
    and "served net url blk hist (lastId st) (pages @ [page])"
    and "passes (lastId st) (prevLastId st) pages"
    and "\<not> passes (lastId (state_after st pages)) (prevLastId (state_after st pages)) [page]"
  shows "pagination_loop net url blk hist st =
           Some (hist @ queries url blk (lastId st) (pages @ [page]), Inl cursor_stalled)"
  using assms
proof (induction pages arbitrary: hist st)
  case Nil
  then have "loop_body net url blk hist st =
               Leave (hist @ [PoolsQuery url (lastId st) blk], Inl cursor_stalled)"
    by (auto simp: loop_body_full split: option.splits)
  then show ?case by (simp add: pagination_loop_leave)
next
  case (Cons p pages)
  from Cons.prems(3) obtain n where n: "pool_id (p ! 999) = Some n"
    and ok: "n \<noteq> []" "n \<noteq> lastId st" "n \<noteq> prevLastId st"
    and rest: "passes n (lastId st) pages"
    using Cons.prems(1) by (auto split: option.splits)
  let ?st' = "\<lparr>lastId = n, prevLastId = lastId st, allPools = allPools st @ p\<rparr>"
  let ?hist' = "hist @ [PoolsQuery url (lastId st) blk]"
  have ca: "cursor_after p = n"
    using n Cons.prems(1) by (simp add: cursor_after_def)
  have "loop_body net url blk hist st = Again ?hist' ?st'"
    using Cons.prems(1,2) n ok by (simp add: loop_body_full)
  then have "pagination_loop net url blk hist st = pagination_loop net url blk ?hist' ?st'"
    by (rule pagination_loop_again)
  also have "\<dots> = Some (?hist' @ queries url blk (lastId ?st') (pages @ [page]),
                         Inl cursor_stalled)"
    using Cons.prems(1,2,4) rest ca by (intro Cons.IH) simp_all
  finally show ?case by (simp add: ca)
qed

lemma returnTags_prelude:
  "returnTags net chainId apiKey =
     (case prelude net chainId apiKey of
        (hist, Inl e) \<Rightarrow> Some (hist, Inl e)
      | (hist, Inr (chainIdNum, subgraphUrl, blockNumber)) \<Rightarrow>
          (case pagination_loop net subgraphUrl blockNumber hist first_state of
             None \<Rightarrow> None
           | Some (hist', Inl e) \<Rightarrow> Some (hist', Inl e)
           | Some (hist', Inr pools) \<Rightarrow>
               Some (hist', Inr (transformPoolsToTags (String chainIdNum) pools))))"
  by (simp add: returnTags_def prelude_def first_state_def Let_def split: sum.splits prod.splits)

lemma pagination_loop_invariant:
  assumes run: "pagination_loop net url blk hist st = Some y"
    and init: "I hist st"
    and step: "\<And>h s h' s'. I h s \<Longrightarrow> loop_body net url blk h s = Again h' s' \<Longrightarrow> I h' s'"
    and final: "\<And>h s r. I h s \<Longrightarrow> loop_body net url blk h s = Leave r \<Longrightarrow> Q r"
  shows "Q y"
proof -
  have "n = net \<and> u = url \<and> b = blk \<and> I h s \<longrightarrow> Q z"
    if "pagination_loop n u b h s = Some z" for n u b h s z
    using that
  proof (induction rule: pagination_loop.raw_induct [rotated 1, consumes 1])
    case (1 loop n u b h s z)
    show ?case
    proof (intro impI, elim conjE)
      assume eq: "n = net" "u = url" "b = blk" and inv: "I h s"
      show "Q z"
      proof (cases "loop_body net url blk h s")
        case (Leave r)
        with 1(2) eq have "z = r" by simp
        with final [OF inv Leave] show ?thesis by simp
      next
        case (Again h' s')
        with 1(2) eq have "loop net url blk h' s' = Some z" by simp
        from 1(1) [OF this] step [OF inv Again] show ?thesis by simp
      qed
    qed
  qed
  with run init show ?thesis by blast
qed


lemma returnTags_run:
  assumes "prelude net chainId apiKey = (hist, Inr (n, url, blk))"
    and "pagination_loop net url blk hist first_state = Some (hist', r)"
  shows "returnTags net chainId apiKey =
           Some (hist', case r of Inl e \<Rightarrow> Inl e
                        | Inr pools \<Rightarrow> Inr (transformPoolsToTags (String n) pools))"
  using assms by (simp add: returnTags_prelude split: sum.splits)

subsection \<open>The examples\<close>

lemma resolve_key: "resolveSubgraphUrl c (lit ''137'') (lit ''key'') = Inr key_url"
  by (simp add: resolveSubgraphUrl_def SUBGRAPH_URLS_def lit_def key_url_def unreserved_def)


lemma fetchPools_scripted:
  "fetchPools (scripted b pages) hist url cur blk =
     (hist @ [PoolsQuery url cur blk],
      Inr (if length hist - 1 < length pages then pages ! (length hist - 1) else []))"
  by (simp add: fetchPools_def scripted_def answer_def)

lemma fetchIndexedBlockNumber_scripted:
  "fetchIndexedBlockNumber (scripted b pages) hist url = (hist @ [MetaQuery url], Inr b)"
  by (simp add: fetchIndexedBlockNumber_def scripted_def answer_def)

lemma trim_137: "trim (lit ''137'') = lit ''137''"
  by (simp add: trim_def lit_def is_space_def)

lemma trim_key: "trim (lit ''key'') = lit ''key''"
  by (simp add: trim_def lit_def is_space_def)

lemma Number_137: "Number (lit ''137'') = 137"
  by (simp add: Number_def lit_def)

lemma String_137: "String 137 = lit ''137''"
  by (simp add: String.simps lit_def)

lemma all_digits_137: "all_digits (lit ''137'')"
  by (simp add: all_digits_def is_digit_def lit_def)

lemma prelude_scripted:
  "prelude (scripted b pages) (lit ''137'') (lit ''key'') = ([MetaQuery key_url], Inr (137, key_url, b))"
  by (simp add: prelude_def trim_137 trim_key Number_137 String_137 all_digits_137 supportedChains_def
      resolve_key fetchIndexedBlockNumber_scripted) (simp add: lit_def)

lemma length_full_page [simp]: "length (full_page i) = 1000"
  by (simp add: full_page_def)

lemma last_full_page [simp]: "pool_id (full_page i ! 999) = Some i"
  by (simp add: full_page_def pool_of_def)

lemma cursor_after_full_page [simp]: "cursor_after (full_page i) = i"
  by (simp add: cursor_after_def)

lemma zero_address_not_empty [simp]: "zero_address \<noteq> []"
  by (simp add: zero_address_def lit_def)

subsection \<open>Runs that return all the pages\<close>

text \<open>
  A page before the last is returned by the page fetcher only when the loop goes on
  after the page before it. When some page before the last fails the check of the
  cursor, the loop throws at that page: it has issued fewer queries than there are
  pages. A data source that honours \<open>id_gt\<close> never gives such a page.
\<close>

lemma length_queries [simp]: "length (queries url blk cur pages) = length pages"
  by (induction pages arbitrary: cur) simp_all

lemma served_prefix:
  "served net url blk hist cur (ps @ qs) \<Longrightarrow> served net url blk hist cur ps"
  by (induction ps arbitrary: hist cur) simp_all

lemma stall_before_last:
  assumes "list_all (\<lambda>p. length p = 1000) ps"
    and "served net url blk hist (lastId st) ps"
    and "\<not> passes (lastId st) (prevLastId st) ps"
  shows "\<exists>hist'. pagination_loop net url blk hist st = Some (hist', Inl cursor_stalled)
                \<and> length hist' \<le> length hist + length ps"
  using assms
proof (induction ps arbitrary: hist st)
  case Nil
  then show ?case by simp
next
  case (Cons p ps)
  let ?hist' = "hist @ [PoolsQuery url (lastId st) blk]"
  from Cons.prems have page: "snd (fetchPools net hist url (lastId st) blk) = Inr p"
    and full: "length p = 1000"
    by simp_all
  show ?case
  proof (cases "passes (lastId st) (prevLastId st) [p]")
    case False
    then have "loop_body net url blk hist st = Leave (?hist', Inl cursor_stalled)"
      using page full by (auto simp: loop_body_full split: option.splits)
    then have "pagination_loop net url blk hist st = Some (?hist', Inl cursor_stalled)"
      by (rule pagination_loop_leave)
    then show ?thesis by simp
  next
    case True
    then obtain n where n: "pool_id (p ! 999) = Some n"
      and ok: "n \<noteq> []" "n \<noteq> lastId st" "n \<noteq> prevLastId st"
      using full by (auto split: option.splits)
    let ?st' = "\<lparr>lastId = n, prevLastId = lastId st, allPools = allPools st @ p\<rparr>"
    have ca: "cursor_after p = n"
      using n full by (simp add: cursor_after_def)
    have rest: "\<not> passes (lastId ?st') (prevLastId ?st') ps"
      using Cons.prems(3) n ok full by simp
    have "loop_body net url blk hist st = Again ?hist' ?st'"
      using page full n ok by (simp add: loop_body_full)
    then have step: "pagination_loop net url blk hist st = pagination_loop net url blk ?hist' ?st'"
      by (rule pagination_loop_again)
    have "\<exists>hist''. pagination_loop net url blk ?hist' ?st' = Some (hist'', Inl cursor_stalled)
                \<and> length hist'' \<le> length ?hist' + length ps"
      using Cons.prems(1,2) rest ca by (intro Cons.IH) simp_all
    with step show ?thesis by auto
  qed
qed

lemma id_gt_passes:
  assumes "honours_id_gt net"
    and "prev \<le> cur"
    and "list_all (\<lambda>p. length p = 1000) ps"
    and "served net url blk hist cur ps"
  shows "passes cur prev ps"
  using assms(2-4)
proof (induction ps arbitrary: hist cur prev)
  case Nil
  show ?case by simp
next
  case (Cons p ps)
  from Cons.prems have page: "snd (fetchPools net hist url cur blk) = Inr p"
    and full: "length p = 1000"
    by simp_all
  from assms(1) page have "list_all (id_above cur) p"
    by (simp add: honours_id_gt_def)
  then have "id_above cur (p ! 999)"
    using full by (simp add: list_all_length)
  then obtain n where n: "pool_id (p ! 999) = Some n" and above: "cur < n"
    by (auto simp: id_above_def split: option.splits)
  have ca: "cursor_after p = n"
    using n full by (simp add: cursor_after_def)
  from above have "n \<noteq> cur" by simp
  moreover from above Cons.prems(1) have "prev < n" by (rule le_less_trans [rotated])
  then have "n \<noteq> prev" by simp
  moreover have "n \<noteq> []"
    using above by auto
  moreover have "passes n cur ps"
  proof (rule Cons.IH [of cur n "hist @ [PoolsQuery url cur blk]"])
    show "cur \<le> n" using above by simp
    show "list_all (\<lambda>p. length p = 1000) ps" using Cons.prems(2) by simp
    show "served net url blk (hist @ [PoolsQuery url cur blk]) n ps"
      using Cons.prems(3) ca by simp
  qed
  ultimately show ?case using n full by simp
qed

lemma fetched_pages_pass:
  assumes "well_paged pages"
    and "served net url blk hist zero_address pages"
    and "pagination_loop net url blk hist first_state =
           Some (hist @ queries url blk zero_address pages, r)"
  shows "passes zero_address [] (butlast pages)"
proof (rule ccontr)
  assume stall: "\<not> passes zero_address [] (butlast pages)"
  from assms(1) have split: "pages = butlast pages @ [last pages]"
    and full: "list_all (\<lambda>p. length p = 1000) (butlast pages)"
    by (simp_all add: well_paged_def)
  from assms(2) split have "served net url blk hist zero_address (butlast pages)"
    by (metis served_prefix)
  with full stall
  have "\<exists>hist'. pagination_loop net url blk hist first_state = Some (hist', Inl cursor_stalled)
                \<and> length hist' \<le> length hist + length (butlast pages)"
    by (intro stall_before_last) (simp_all add: first_state_def)
  with assms(3) have "length (hist @ queries url blk zero_address pages)
                        \<le> length hist + length (butlast pages)"
    by auto
  then have "length hist + length pages \<le> length hist + (length pages - 1)"
    by (simp only: length_append length_queries length_butlast)
  moreover from assms(1) have "0 < length pages" by (simp add: well_paged_def)
  ultimately show False by arith
qed

text \<open>
  C1. When \<open>returnTags\<close> has reached its loop and the page fetcher returns the pages of
  a list in order, every page but the last with exactly 1000 records and the last with
  fewer, then the loop returns after one query for each page, the records collected are
  the concatenation of the pages in order, and \<open>returnTags\<close> returns the tags of these
  records. That all the pages are returned is given in any of three ways, which say the
  same of a list of this shape: every page but the last passes the check of the cursor;
  the data source honours \<open>id_gt\<close>; the run has issued one query for each page.
\<close>

theorem pagination_concatenates:
  assumes "prelude net chainId apiKey = (hist, Inr (n, url, blk))"
    and "well_paged pages"
    and "served net url blk hist zero_address pages"
    and "passes zero_address [] (butlast pages)
         \<or> honours_id_gt net
         \<or> (\<exists>r. pagination_loop net url blk hist first_state =
                    Some (hist @ queries url blk zero_address pages, r))"
  shows "pagination_loop net url blk hist first_state =
           Some (hist @ queries url blk zero_address pages, Inr (concat pages))
         \<and> returnTags net chainId apiKey =
             Some (hist @ queries url blk zero_address pages,
                   Inr (transformPoolsToTags (String n) (concat pages)))"
proof -
  from assms(2) have split: "pages = butlast pages @ [last pages]"
    and full: "list_all (\<lambda>p. length p = 1000) (butlast pages)"
    and short: "length (last pages) \<noteq> 1000"
    by (simp_all add: well_paged_def)
  from assms(3) split have prefix: "served net url blk hist zero_address (butlast pages)"
    by (metis served_prefix)
  from assms(4) have pass: "passes zero_address [] (butlast pages)"
  proof (elim disjE exE)
    assume "passes zero_address [] (butlast pages)"
    then show ?thesis .
  next
    assume honest: "honours_id_gt net"
    have "[] \<le> zero_address" by simp
    with honest show ?thesis
      using full prefix by (rule id_gt_passes)
  next
    fix r
    assume "pagination_loop net url blk hist first_state =
              Some (hist @ queries url blk zero_address pages, r)"
    with assms(2,3) show ?thesis by (rule fetched_pages_pass)
  qed
  have "pagination_loop net url blk hist first_state =
          Some (hist @ queries url blk (lastId first_state) (butlast pages @ [last pages]),
                Inr (allPools first_state @ concat (butlast pages @ [last pages])))"
    using full assms(3) pass short split
    by (intro loop_final_page) (simp_all add: first_state_def)
  then have loop: "pagination_loop net url blk hist first_state =
          Some (hist @ queries url blk zero_address pages, Inr (concat pages))"
    using split by (simp add: first_state_def)
  from returnTags_run [OF assms(1) loop] loop show ?thesis by simp
qed

lemma well_paged_ascending: "well_paged ascending_pages"
  by (simp add: well_paged_def ascending_pages_def)

lemma served_ascending:
  "served (scripted 1 ascending_pages) key_url 1 [MetaQuery key_url] zero_address ascending_pages"
  by (simp add: ascending_pages_def fetchPools_scripted)

lemma passes_ascending: "passes zero_address [] (butlast ascending_pages)"
  by (simp add: ascending_pages_def) (simp add: zero_address_def lit_def)

lemma queries_ascending:
  "queries key_url 1 zero_address ascending_pages =
     [PoolsQuery key_url zero_address 1, PoolsQuery key_url (lit ''0x1'') 1]"
  by (simp add: ascending_pages_def)

theorem pagination_concatenates_witness:
  "pagination_loop (scripted 1 ascending_pages) key_url 1 [MetaQuery key_url] first_state =
     Some ([MetaQuery key_url, PoolsQuery key_url zero_address 1,
            PoolsQuery key_url (lit ''0x1'') 1],
           Inr (concat ascending_pages))
   \<and> returnTags (scripted 1 ascending_pages) (lit ''137'') (lit ''key'') =
       Some ([MetaQuery key_url, PoolsQuery key_url zero_address 1,
              PoolsQuery key_url (lit ''0x1'') 1],
             Inr (transformPoolsToTags (lit ''137'') (concat ascending_pages)))"
  using pagination_concatenates [OF prelude_scripted well_paged_ascending served_ascending
      disjI1 [OF passes_ascending]]
  by (simp add: queries_ascending String_137)

subsection \<open>The check of the cursor\<close>

lemma changing_snoc:
  "changing p (xs @ [c]) \<Longrightarrow> d \<noteq> [] \<Longrightarrow> d \<noteq> c \<Longrightarrow> d \<noteq> last (p # xs) \<Longrightarrow>
     changing p (xs @ [c, d])"
proof (induction xs arbitrary: p)
  case Nil
  then show ?case by simp
next
  case (Cons x xs)
  show ?case
  proof (cases xs)
    case Nil
    with Cons.prems show ?thesis by simp
  next
    case (Cons y ys)
    with Cons.prems Cons.IH [of x] show ?thesis by simp
  qed
qed

lemma loop_body_Again:
  assumes "loop_body net url blk h s = Again h' s'"
  shows "h' = h @ [PoolsQuery url (lastId s) blk] \<and> prevLastId s' = lastId s
         \<and> lastId s' \<noteq> [] \<and> lastId s' \<noteq> lastId s \<and> lastId s' \<noteq> prevLastId s
         \<and> (\<exists>page. snd (fetchPools net h url (lastId s) blk) = Inr page \<and> length page = 1000
                    \<and> pool_id (page ! 999) = Some (lastId s') \<and> allPools s' = allPools s @ page)"
proof (cases "snd (fetchPools net h url (lastId s) blk)")
  case (Inl e)
  with assms show ?thesis by (simp add: loop_body_error)
next
  case (Inr page)
  show ?thesis
  proof (cases "length page = 1000")
    case True
    with assms Inr show ?thesis
      by (auto simp: loop_body_full split: option.splits if_splits)
  next
    case False
    with assms Inr show ?thesis by (simp add: loop_body_final)
  qed
qed

lemma loop_body_Leave:
  assumes "loop_body net url blk h s = Leave r"
  shows "fst r = h @ [PoolsQuery url (lastId s) blk]
         \<and> (\<forall>pools. snd r = Inr pools \<longrightarrow>
               (\<exists>page. snd (fetchPools net h url (lastId s) blk) = Inr page
                        \<and> length page \<noteq> 1000 \<and> pools = allPools s @ page))"
proof (cases "snd (fetchPools net h url (lastId s) blk)")
  case (Inl e)
  with assms show ?thesis by (auto simp: loop_body_error)
next
  case (Inr page)
  show ?thesis
  proof (cases "length page = 1000")
    case True
    with assms Inr show ?thesis
      by (auto simp: loop_body_full cursor_stalled_def split: option.splits if_splits)
  next
    case False
    with assms Inr show ?thesis by (auto simp: loop_body_final)
  qed
qed

lemma cursor_trace:
  assumes "pagination_loop net url blk hist first_state = Some y"
  shows "\<exists>cs. fst y = hist @ map (\<lambda>c. PoolsQuery url c blk) (zero_address # cs)
              \<and> changing [] (zero_address # cs)"
proof (rule pagination_loop_invariant [OF assms, where
      I = "\<lambda>h (s::loop_state). \<exists>ys. hd (ys @ [lastId s]) = zero_address
                    \<and> h = hist @ map (\<lambda>c. PoolsQuery url c blk) ys
                    \<and> changing [] (ys @ [lastId s]) \<and> prevLastId s = last ([] # ys)"])
  show "\<exists>ys. hd (ys @ [lastId first_state]) = zero_address
             \<and> hist = hist @ map (\<lambda>c. PoolsQuery url c blk) ys
             \<and> changing [] (ys @ [lastId first_state])
             \<and> prevLastId first_state = last ([] # ys)"
    by (rule exI [of _ "[]"]) (simp add: first_state_def)
next
  fix h :: "request list" and s :: loop_state and h' :: "request list" and s' :: loop_state
  assume "\<exists>ys. hd (ys @ [lastId s]) = zero_address
             \<and> h = hist @ map (\<lambda>c. PoolsQuery url c blk) ys
             \<and> changing [] (ys @ [lastId s]) \<and> prevLastId s = last ([] # ys)"
  then obtain ys where ys: "hd (ys @ [lastId s]) = zero_address"
    "h = hist @ map (\<lambda>c. PoolsQuery url c blk) ys"
    "changing [] (ys @ [lastId s])" "prevLastId s = last ([] # ys)"
    by blast
  assume "loop_body net url blk h s = Again h' s'"
  from loop_body_Again [OF this]
  have h': "h' = h @ [PoolsQuery url (lastId s) blk]" and prev: "prevLastId s' = lastId s"
    and new: "lastId s' \<noteq> []" "lastId s' \<noteq> lastId s" "lastId s' \<noteq> prevLastId s"
    by blast+
  have "changing [] (ys @ [lastId s, lastId s'])"
    using ys(3,4) new by (intro changing_snoc) simp_all
  moreover have "hd ((ys @ [lastId s]) @ [lastId s']) = zero_address"
    using ys(1) by (cases ys) simp_all
  ultimately show "\<exists>ys. hd (ys @ [lastId s']) = zero_address
             \<and> h' = hist @ map (\<lambda>c. PoolsQuery url c blk) ys
             \<and> changing [] (ys @ [lastId s']) \<and> prevLastId s' = last ([] # ys)"
    using h' ys(2) prev by (intro exI [of _ "ys @ [lastId s]"]) simp
next
  fix h :: "request list" and s :: loop_state
    and r :: "request list \<times> (error + LiquidityPool list)"
  assume "\<exists>ys. hd (ys @ [lastId s]) = zero_address
             \<and> h = hist @ map (\<lambda>c. PoolsQuery url c blk) ys
             \<and> changing [] (ys @ [lastId s]) \<and> prevLastId s = last ([] # ys)"
  then obtain ys where ys: "hd (ys @ [lastId s]) = zero_address"
    "h = hist @ map (\<lambda>c. PoolsQuery url c blk) ys"
    "changing [] (ys @ [lastId s])"
    by blast
  assume "loop_body net url blk h s = Leave r"
  from loop_body_Leave [OF this] have "fst r = h @ [PoolsQuery url (lastId s) blk]"
    by blast
  then have log: "fst r = hist @ map (\<lambda>c. PoolsQuery url c blk) (ys @ [lastId s])"
    using ys(2) by simp
  from ys(1) have "ys @ [lastId s] = zero_address # tl (ys @ [lastId s])"
    by (cases ys) simp_all
  then obtain cs where "ys @ [lastId s] = zero_address # cs" ..
  with log ys(3) show "\<exists>cs. fst r = hist @ map (\<lambda>c. PoolsQuery url c blk) (zero_address # cs)
              \<and> changing [] (zero_address # cs)"
    by (intro exI [of _ cs]) simp
qed

lemma queries_snoc:
  "queries url blk (lastId st) (pages @ [page]) =
     queries url blk (lastId st) pages @ [PoolsQuery url (lastId (state_after st pages)) blk]"
proof (induction pages arbitrary: st)
  case Nil
  show ?case by simp
next
  case (Cons p pages)
  from Cons.IH [of "\<lparr>lastId = cursor_after p, prevLastId = lastId st, allPools = allPools st @ p\<rparr>"]
  show ?case by simp
qed

lemma backwards_loop:
  "pagination_loop (scripted 1 backwards_pages) key_url 1 [MetaQuery key_url] first_state =
     Some ([MetaQuery key_url, PoolsQuery key_url zero_address 1,
            PoolsQuery key_url (lit ''0x2'') 1, PoolsQuery key_url (lit ''0x1'') 1],
           Inr (concat backwards_pages))"
proof -
  have "pagination_loop (scripted 1 backwards_pages) key_url 1 [MetaQuery key_url] first_state =
          Some ([MetaQuery key_url] @ queries key_url 1 (lastId first_state)
                  ([full_page (lit ''0x2''), full_page (lit ''0x1'')] @ [[record_A]]),
                Inr (allPools first_state
                     @ concat ([full_page (lit ''0x2''), full_page (lit ''0x1'')] @ [[record_A]])))"
    by (rule loop_final_page)
       (simp_all add: first_state_def fetchPools_scripted backwards_pages_def zero_address_def
          lit_def)
  then show ?thesis
    by (simp add: first_state_def backwards_pages_def)
qed

text \<open>
  C2, as stated, fails. The source answers with a full page that ends at \<open>0x2\<close>, then
  with a full page that ends at \<open>0x1\<close>, then with a short page. The third query carries
  the cursor \<open>0x1\<close>, which is smaller than the cursor \<open>0x2\<close> of the second query, and
  \<open>returnTags\<close> goes on and returns the tags.
\<close>

theorem cursor_order_counterexample:
  "returnTags (scripted 1 backwards_pages) (lit ''137'') (lit ''key'') =
     Some ([MetaQuery key_url, PoolsQuery key_url zero_address 1,
            PoolsQuery key_url (lit ''0x2'') 1, PoolsQuery key_url (lit ''0x1'') 1],
           Inr (transformPoolsToTags (lit ''137'') (concat backwards_pages)))
   \<and> lit ''0x1'' < lit ''0x2''"
proof
  show "returnTags (scripted 1 backwards_pages) (lit ''137'') (lit ''key'') =
     Some ([MetaQuery key_url, PoolsQuery key_url zero_address 1,
            PoolsQuery key_url (lit ''0x2'') 1, PoolsQuery key_url (lit ''0x1'') 1],
           Inr (transformPoolsToTags (lit ''137'') (concat backwards_pages)))"
    using returnTags_run [OF prelude_scripted backwards_loop] by (simp add: String_137)
  show "lit ''0x1'' < lit ''0x2''"
    by (simp add: lit_def)
qed

text \<open>
  C2, amended. In every run of the loop of \<open>returnTags\<close> that returns, with the records
  or with an error, the queries carry the initial cursor and then cursors each of which
  is not empty and differs from the cursor before it and from the one before that; they
  need not increase. At every round of the loop with a full page, the loop goes on with
  the identifier of the last record as the cursor when this identifier is present, not
  empty and different from the cursor of the round and from the cursor before it, and
  otherwise the operation aborts with the stall error.
\<close>

theorem cursor_changes:
  "(pagination_loop net url blk hist first_state = Some (hist', r) \<longrightarrow>
      (\<exists>cs. hist' = hist @ map (\<lambda>c. PoolsQuery url c blk) (zero_address # cs)
            \<and> changing [] (zero_address # cs)))
   \<and> (snd (fetchPools net h url (lastId st) blk) = Inr page \<and> length page = 1000 \<longrightarrow>
        pagination_loop net url blk h st =
          (case pool_id (page ! 999) of
             None \<Rightarrow> Some (h @ [PoolsQuery url (lastId st) blk], Inl cursor_stalled)
           | Some n \<Rightarrow>
               if n = [] \<or> n = lastId st \<or> n = prevLastId st
               then Some (h @ [PoolsQuery url (lastId st) blk], Inl cursor_stalled)
               else pagination_loop net url blk (h @ [PoolsQuery url (lastId st) blk])
                      \<lparr>lastId = n, prevLastId = lastId st, allPools = allPools st @ page\<rparr>))"
proof (intro conjI impI)
  assume "pagination_loop net url blk hist first_state = Some (hist', r)"
  from cursor_trace [OF this]
  show "\<exists>cs. hist' = hist @ map (\<lambda>c. PoolsQuery url c blk) (zero_address # cs)
            \<and> changing [] (zero_address # cs)"
    by simp
next
  assume page: "snd (fetchPools net h url (lastId st) blk) = Inr page \<and> length page = 1000"
  then have body: "loop_body net url blk h st =
       (case pool_id (page ! 999) of
          None \<Rightarrow> Leave (h @ [PoolsQuery url (lastId st) blk], Inl cursor_stalled)
        | Some n \<Rightarrow>
            if n = [] \<or> n = lastId st \<or> n = prevLastId st
            then Leave (h @ [PoolsQuery url (lastId st) blk], Inl cursor_stalled)
            else Again (h @ [PoolsQuery url (lastId st) blk])
                   \<lparr>lastId = n, prevLastId = lastId st, allPools = allPools st @ page\<rparr>)"
    by (simp add: loop_body_full)
  show "pagination_loop net url blk h st =
          (case pool_id (page ! 999) of
             None \<Rightarrow> Some (h @ [PoolsQuery url (lastId st) blk], Inl cursor_stalled)
           | Some n \<Rightarrow>
               if n = [] \<or> n = lastId st \<or> n = prevLastId st
               then Some (h @ [PoolsQuery url (lastId st) blk], Inl cursor_stalled)
               else pagination_loop net url blk (h @ [PoolsQuery url (lastId st) blk])
                      \<lparr>lastId = n, prevLastId = lastId st, allPools = allPools st @ page\<rparr>)"
    by (subst pagination_loop.simps) (simp add: body split: option.splits)
qed

theorem cursor_changes_witness:
  "(\<exists>cs. [MetaQuery key_url, PoolsQuery key_url zero_address 1,
          PoolsQuery key_url (lit ''0x2'') 1, PoolsQuery key_url (lit ''0x1'') 1] =
         [MetaQuery key_url] @ map (\<lambda>c. PoolsQuery key_url c 1) (zero_address # cs)
         \<and> changing [] (zero_address # cs))
   \<and> pagination_loop (scripted 1 backwards_pages) key_url 1 [MetaQuery key_url] first_state =
       pagination_loop (scripted 1 backwards_pages) key_url 1
         [MetaQuery key_url, PoolsQuery key_url zero_address 1]
         \<lparr>lastId = lit ''0x2'', prevLastId = zero_address, allPools = full_page (lit ''0x2'')\<rparr>"
proof -
  have page: "snd (fetchPools (scripted 1 backwards_pages) [MetaQuery key_url] key_url
                     (lastId first_state) 1) = Inr (full_page (lit ''0x2''))
              \<and> length (full_page (lit ''0x2'')) = 1000"
    by (simp add: fetchPools_scripted backwards_pages_def)
  have new: "lit ''0x2'' \<noteq> [] \<and> lit ''0x2'' \<noteq> zero_address"
    by (simp add: lit_def zero_address_def)
  from cursor_changes [of "scripted 1 backwards_pages" key_url 1 "[MetaQuery key_url]"
      "[MetaQuery key_url, PoolsQuery key_url zero_address 1,
        PoolsQuery key_url (lit ''0x2'') 1, PoolsQuery key_url (lit ''0x1'') 1]"
      "Inr (concat backwards_pages)" "[MetaQuery key_url]" first_state
      "full_page (lit ''0x2'')"]
    backwards_loop page new
  show ?thesis by (simp add: first_state_def)
qed

text \<open>
  C3. When \<open>returnTags\<close> has reached its loop and the page fetcher has returned full
  pages that pass the check of the cursor, a further full page whose last record has
  no identifier, or the empty one, or the cursor of its own query, or the cursor of the
  query before, makes \<open>returnTags\<close> throw the stall error. The last request issued
  is the query of that page: no further page is asked for.
\<close>

theorem stalled_cursor_aborts:
  assumes "prelude net chainId apiKey = (hist, Inr (n, url, blk))"
    and "list_all (\<lambda>p. length p = 1000) (pages @ [page])"
    and "served net url blk hist zero_address (pages @ [page])"
    and "passes zero_address [] pages"
    and "state_after first_state pages = st"
    and "pool_id (page ! 999) = None \<or> pool_id (page ! 999) = Some []
         \<or> pool_id (page ! 999) = Some (lastId st)
         \<or> pool_id (page ! 999) = Some (prevLastId st)"
  shows "returnTags net chainId apiKey =
           Some (hist @ queries url blk zero_address pages @ [PoolsQuery url (lastId st) blk],
                 Inl (Error PaginationStallError
                        (lit ''Pagination cursor (pools) did not advance; aborting.'')))"
proof -
  have stall: "\<not> passes (lastId (state_after first_state pages))
                  (prevLastId (state_after first_state pages)) [page]"
    using assms(2,5,6) by (auto split: option.splits)
  have "pagination_loop net url blk hist first_state =
          Some (hist @ queries url blk (lastId first_state) (pages @ [page]), Inl cursor_stalled)"
    using assms(2,3,4) stall by (intro loop_stalled_page) (simp_all add: first_state_def)
  also have "queries url blk (lastId first_state) (pages @ [page]) =
               queries url blk zero_address pages @ [PoolsQuery url (lastId st) blk]"
    using assms(5) by (simp add: queries_snoc) (simp add: first_state_def)
  finally have "pagination_loop net url blk hist first_state =
          Some (hist @ queries url blk zero_address pages @ [PoolsQuery url (lastId st) blk],
                Inl cursor_stalled)" .
  from returnTags_run [OF assms(1) this] show ?thesis
    by (simp add: cursor_stalled_def)
qed

theorem stalled_cursor_aborts_witness:
  "returnTags (scripted 1 oscillating_pages) (lit ''137'') (lit ''key'') =
     Some ([MetaQuery key_url, PoolsQuery key_url zero_address 1,
            PoolsQuery key_url (lit ''0x1'') 1],
           Inl (Error PaginationStallError
                  (lit ''Pagination cursor (pools) did not advance; aborting.'')))"
proof -
  have full: "list_all (\<lambda>p. length p = 1000) ([full_page (lit ''0x1'')] @ [full_page zero_address])"
    by simp
  have served: "served (scripted 1 oscillating_pages) key_url 1 [MetaQuery key_url] zero_address
                  ([full_page (lit ''0x1'')] @ [full_page zero_address])"
    by (simp add: oscillating_pages_def fetchPools_scripted)
  have passes: "passes zero_address [] [full_page (lit ''0x1'')]"
    by (simp add: zero_address_def lit_def)
  have st: "state_after first_state [full_page (lit ''0x1'')] =
              \<lparr>lastId = lit ''0x1'', prevLastId = zero_address, allPools = full_page (lit ''0x1'')\<rparr>"
    by (simp add: first_state_def)
  have bad: "pool_id (full_page zero_address ! 999) = None
             \<or> pool_id (full_page zero_address ! 999) = Some []
             \<or> pool_id (full_page zero_address ! 999) =
                 Some (lastId \<lparr>lastId = lit ''0x1'', prevLastId = zero_address,
                                allPools = full_page (lit ''0x1'')\<rparr>)
             \<or> pool_id (full_page zero_address ! 999) =
                 Some (prevLastId \<lparr>lastId = lit ''0x1'', prevLastId = zero_address,
                                    allPools = full_page (lit ''0x1'')\<rparr>)"
    by simp
  from stalled_cursor_aborts [OF prelude_scripted full served passes st bad]
  show ?thesis by simp
qed

subsection \<open>The initial cursor\<close>

lemma prelude_hist:
  assumes "prelude net chainId apiKey = (hist, Inr (n, url, blk))"
  shows "hist = [MetaQuery url]"
  using assms
  by (auto simp: prelude_def fetchIndexedBlockNumber_def Let_def split: if_splits sum.splits prod.splits)

lemma id_above_not_zero: "zero_address \<le> cur \<Longrightarrow> id_above cur p \<Longrightarrow> pool_id p \<noteq> Some zero_address"
  by (auto simp: id_above_def split: option.splits)

lemma id_gt_invariant:
  assumes honest: "honours_id_gt net"
    and run: "pagination_loop net url blk hist first_state = Some y"
    and hist: "list_all from_zero hist"
  shows "list_all from_zero (fst y)
         \<and> (\<forall>pools. snd y = Inr pools \<longrightarrow> list_all (\<lambda>p. pool_id p \<noteq> Some zero_address) pools)"
proof (rule pagination_loop_invariant [OF run, where
      I = "\<lambda>h (s::loop_state). zero_address \<le> lastId s
             \<and> list_all (\<lambda>p. pool_id p \<noteq> Some zero_address) (allPools s)
             \<and> list_all from_zero h"])
  show "zero_address \<le> lastId first_state
        \<and> list_all (\<lambda>p. pool_id p \<noteq> Some zero_address) (allPools first_state)
        \<and> list_all from_zero hist"
    using hist by (simp add: first_state_def)
next
  fix h :: "request list" and s :: loop_state and h' :: "request list" and s' :: loop_state
  assume inv: "zero_address \<le> lastId s
             \<and> list_all (\<lambda>p. pool_id p \<noteq> Some zero_address) (allPools s)
             \<and> list_all from_zero h"
  assume "loop_body net url blk h s = Again h' s'"
  from loop_body_Again [OF this] obtain page
    where h': "h' = h @ [PoolsQuery url (lastId s) blk]"
      and page: "snd (fetchPools net h url (lastId s) blk) = Inr page" "length page = 1000"
        "pool_id (page ! 999) = Some (lastId s')" "allPools s' = allPools s @ page"
    by blast
  from honest page(1) have id_above: "list_all (id_above (lastId s)) page"
    by (simp add: honours_id_gt_def)
  then have "id_above (lastId s) (page ! 999)"
    using page(2) by (simp add: list_all_length)
  then have "lastId s < lastId s'"
    using page(3) by (simp add: id_above_def)
  with inv have "zero_address < lastId s'" by (blast intro: le_less_trans)
  then have "zero_address \<le> lastId s'" by (rule less_imp_le)
  moreover have "list_all (\<lambda>p. pool_id p \<noteq> Some zero_address) page"
    using id_above inv id_above_not_zero by (auto simp: list_all_iff)
  ultimately show "zero_address \<le> lastId s'
             \<and> list_all (\<lambda>p. pool_id p \<noteq> Some zero_address) (allPools s')
             \<and> list_all from_zero h'"
    using inv h' page(4) by (simp add: from_zero_def)
next
  fix h :: "request list" and s :: loop_state
    and r :: "request list \<times> (error + LiquidityPool list)"
  assume inv: "zero_address \<le> lastId s
             \<and> list_all (\<lambda>p. pool_id p \<noteq> Some zero_address) (allPools s)
             \<and> list_all from_zero h"
  assume "loop_body net url blk h s = Leave r"
  from loop_body_Leave [OF this]
  have log: "fst r = h @ [PoolsQuery url (lastId s) blk]"
    and pools: "\<And>pools. snd r = Inr pools \<Longrightarrow>
                 \<exists>page. snd (fetchPools net h url (lastId s) blk) = Inr page
                        \<and> length page \<noteq> 1000 \<and> pools = allPools s @ page"
    by blast+
  have "list_all (\<lambda>p. pool_id p \<noteq> Some zero_address) pools" if "snd r = Inr pools" for pools
  proof -
    from pools [OF that] obtain page
      where page: "snd (fetchPools net h url (lastId s) blk) = Inr page" "pools = allPools s @ page"
      by blast
    from honest page(1) have "list_all (id_above (lastId s)) page"
      by (simp add: honours_id_gt_def)
    then have "list_all (\<lambda>p. pool_id p \<noteq> Some zero_address) page"
      using inv id_above_not_zero by (auto simp: list_all_iff)
    with inv page(2) show ?thesis by simp
  qed
  with log inv show "list_all from_zero (fst r)
         \<and> (\<forall>pools. snd r = Inr pools \<longrightarrow> list_all (\<lambda>p. pool_id p \<noteq> Some zero_address) pools)"
    by (simp add: from_zero_def)
qed

text \<open>
  C9. The loop of \<open>returnTags\<close> starts with the all-zero address as its cursor: the
  first pools query carries it. When the data source honours \<open>id_gt\<close> and the loop
  returns the records, every pools query has asked for identifiers above a cursor that
  is not below the all-zero address, no record collected has the all-zero address as
  its identifier, and the tags returned are the tags of these records.
\<close>

theorem zero_address_excluded:
  assumes "honours_id_gt net"
    and "prelude net chainId apiKey = (hist, Inr (n, url, blk))"
    and "pagination_loop net url blk hist first_state = Some (hist', Inr pools)"
  shows "hist' ! 1 = PoolsQuery url zero_address blk
         \<and> list_all from_zero hist'
         \<and> list_all (\<lambda>p. pool_id p \<noteq> Some zero_address) pools
         \<and> returnTags net chainId apiKey =
             Some (hist', Inr (transformPoolsToTags (String n) pools))"
proof -
  have hist: "hist = [MetaQuery url]"
    using assms(2) by (rule prelude_hist)
  from cursor_trace [OF assms(3)] hist have "hist' ! 1 = PoolsQuery url zero_address blk"
    by auto
  moreover from id_gt_invariant [OF assms(1,3)] hist
  have "list_all from_zero hist'" "list_all (\<lambda>p. pool_id p \<noteq> Some zero_address) pools"
    by (simp_all add: from_zero_def)
  moreover from returnTags_run [OF assms(2,3)]
  have "returnTags net chainId apiKey = Some (hist', Inr (transformPoolsToTags (String n) pools))"
    by simp
  ultimately show ?thesis by simp
qed

lemma honours_id_gt_source: "honours_id_gt (id_gt_source b pools)"
  by (auto simp: honours_id_gt_def fetchPools_def id_gt_source_def answer_def list_all_iff
      dest: in_set_takeD)

lemma prelude_id_gt_source:
  "prelude (id_gt_source b pools) (lit ''137'') (lit ''key'') = ([MetaQuery key_url], Inr (137, key_url, b))"
  by (simp add: prelude_def trim_137 trim_key Number_137 String_137 all_digits_137 supportedChains_def
      resolve_key fetchIndexedBlockNumber_def id_gt_source_def answer_def) (simp add: lit_def)

lemma id_above_zero_examples:
  "\<not> id_above zero_address zero_pool" "id_above zero_address record_A"
  "id_above zero_address record_B"
  by (simp_all add: id_above_def zero_pool_def record_A_def record_B_def pool_of_def
        zero_address_def lit_def)

lemma id_gt_loop:
  "pagination_loop (id_gt_source 1 [zero_pool, record_A, record_B]) key_url 1 [MetaQuery key_url] first_state
     = Some ([MetaQuery key_url, PoolsQuery key_url zero_address 1], Inr [record_A, record_B])"
proof -
  have "loop_body (id_gt_source 1 [zero_pool, record_A, record_B]) key_url 1 [MetaQuery key_url] first_state
     = Leave ([MetaQuery key_url, PoolsQuery key_url zero_address 1], Inr [record_A, record_B])"
    by (simp add: loop_body_def fetchPools_def id_gt_source_def answer_def first_state_def
        id_above_zero_examples)
  then show ?thesis by (rule pagination_loop_leave)
qed

theorem zero_address_excluded_witness:
  "list_all (\<lambda>p. pool_id p \<noteq> Some zero_address) [record_A, record_B]
   \<and> returnTags (id_gt_source 1 [zero_pool, record_A, record_B]) (lit ''137'') (lit ''key'') =
       Some ([MetaQuery key_url, PoolsQuery key_url zero_address 1],
             Inr (transformPoolsToTags (lit ''137'') [record_A, record_B]))"
  using zero_address_excluded [OF honours_id_gt_source prelude_id_gt_source id_gt_loop]
  by (simp add: String_137)

section \<open>Properties of the entry point\<close>

subsection \<open>The encoded key\<close>

text \<open>
  The result of \<open>encodeURIComponent\<close> has no \<open>$\<close>, so the replacement of \<open>[api-key]\<close>
  never meets one of the \<open>$\<close> patterns of \<open>String.prototype.replace\<close>.
\<close>

lemma hex_digit_not_dollar: "n < 16 \<Longrightarrow> hex_digit n \<noteq> 0x24"
proof
  assume n: "n < 16" and dollar: "hex_digit n = 0x24"
  have small: "unat (of_nat m :: jschar) = m" if "m < 65536" for m
    using that by (simp add: unat_of_nat)
  have "unat (hex_digit n) = (if n < 10 then 48 + n else 55 + n)"
    using n small [of "48 + n"] small [of "55 + n"]
    by (simp add: hex_digit_def del: of_nat_add of_nat_numeral)
  with dollar show False by (simp split: if_splits)
qed

lemma percent_no_dollar: "b < 256 \<Longrightarrow> 0x24 \<notin> set (percent b)"
  using hex_digit_not_dollar [of "b div 16"] hex_digit_not_dollar [of "b mod 16"]
  by (auto simp: percent_def)

lemma utf8_bytes: "cp < 0x110000 \<Longrightarrow> b \<in> set (utf8 cp) \<Longrightarrow> b < 256"
  by (auto simp: utf8_def split: if_splits)

lemma escape_no_dollar: "cp < 0x110000 \<Longrightarrow> 0x24 \<notin> set (escape cp)"
  using utf8_bytes percent_no_dollar by (fastforce simp: escape_def)

lemma unreserved_not_dollar: "unreserved c \<Longrightarrow> c \<noteq> 0x24"
  by (auto simp: unreserved_def)

lemma unit_bound: "unat (c::jschar) < 0x110000"
  using unsigned_less [of c, where 'a = nat] by simp

lemma pair_bound:
  "is_lead c \<Longrightarrow> is_trail d \<Longrightarrow> (unat c - 0xD800) * 0x400 + (unat d - 0xDC00) + 0x10000 < 0x110000"
  unfolding is_lead_def is_trail_def word_le_nat_alt by simp arith

lemma encodeURIComponent_no_dollar:
  "encodeURIComponent s = Some r \<Longrightarrow> 0x24 \<notin> set r"
proof (induction s arbitrary: r rule: encodeURIComponent.induct)
  case 1
  then show ?case by simp
next
  case (2 c s)
  show ?case
  proof (cases "unreserved c")
    case True
    with "2.prems" "2.IH"(1) unreserved_not_dollar show ?thesis by auto
  next
    case plain: False
    show ?thesis
    proof (cases "is_trail c")
      case True
      with plain "2.prems" show ?thesis by simp
    next
      case not_trail: False
      show ?thesis
      proof (cases "is_lead c")
        case True
        with plain not_trail "2.prems" "2.IH"(2) escape_no_dollar [OF pair_bound]
        show ?thesis by (auto split: list.splits if_splits)
      next
        case False
        with plain not_trail "2.prems" "2.IH"(3) escape_no_dollar [OF unit_bound]
        show ?thesis by auto
      qed
    qed
  qed
qed

subsection \<open>The checks of the chain identifier\<close>

lemma prelude_rejects:
  assumes "\<not> all_digits (trim chainId) \<or> Number (trim chainId) \<notin> {56, 137, 250, 1285}"
  shows "prelude net chainId apiKey = ([], Inl (unsupported_chain chainId))"
  using assms by (auto simp: prelude_def supportedChains_def)

lemma trim_padded_137: "trim (lit '' 137 '') = lit ''137''"
  by (simp add: trim_def lit_def is_space_def)

lemma trim_0137: "trim (lit ''0137'') = lit ''0137''"
  by (simp add: trim_def lit_def is_space_def)

lemma Number_0137: "Number (lit ''0137'') = 137"
  by (simp add: Number_def lit_def)

lemma all_digits_0137: "all_digits (lit ''0137'')"
  by (simp add: all_digits_def is_digit_def lit_def)

lemma prelude_accepts:
  assumes "all_digits (trim chainId)" and "Number (trim chainId) = n" and "n \<in> {56, 137, 250, 1285}"
    and "apiKey \<noteq> []" and "trim apiKey \<noteq> []"
    and "resolveSubgraphUrl chainId (String n) apiKey = Inr url"
    and "fetchIndexedBlockNumber net [] url = (hist, Inr blk)"
  shows "prelude net chainId apiKey = (hist, Inr (n, url, blk))"
  using assms by (simp add: prelude_def supportedChains_def)

lemma key_not_empty: "lit ''key'' \<noteq> []"
  by (simp add: lit_def)

lemma prelude_scripted_padded:
  "prelude (scripted b pages) (lit '' 137 '') (lit ''key'') = ([MetaQuery key_url], Inr (137, key_url, b))"
  by (rule prelude_accepts)
     (simp_all add: trim_padded_137 all_digits_137 Number_137 String_137 resolve_key trim_key
        fetchIndexedBlockNumber_scripted key_not_empty)

lemma prelude_scripted_0137:
  "prelude (scripted b pages) (lit ''0137'') (lit ''key'') = ([MetaQuery key_url], Inr (137, key_url, b))"
  by (rule prelude_accepts)
     (simp_all add: trim_0137 all_digits_0137 Number_0137 String_137 resolve_key trim_key
        fetchIndexedBlockNumber_scripted key_not_empty)

lemma empty_loop:
  "pagination_loop (scripted 1 [[]]) key_url 1 [MetaQuery key_url] first_state =
     Some ([MetaQuery key_url, PoolsQuery key_url zero_address 1], Inr [])"
proof -
  have "loop_body (scripted 1 [[]]) key_url 1 [MetaQuery key_url] first_state =
     Leave ([MetaQuery key_url, PoolsQuery key_url zero_address 1], Inr [])"
    by (simp add: loop_body_def fetchPools_scripted first_state_def)
  then show ?thesis by (rule pagination_loop_leave)
qed

text \<open>
  C6, as stated, fails. The chain identifier \<open>137\<close> with a blank on each side is not
  composed solely of decimal digits, and \<open>0137\<close> is not one of the four strings of the
  supported set; \<open>returnTags\<close> takes both for chain 137 and goes to the network.
\<close>

theorem chain_validation_counterexample:
  "\<not> all_digits (lit '' 137 '')
   \<and> lit ''0137'' \<notin> {lit ''56'', lit ''137'', lit ''250'', lit ''1285''}
   \<and> returnTags (scripted 1 [[]]) (lit '' 137 '') (lit ''key'') =
       Some ([MetaQuery key_url, PoolsQuery key_url zero_address 1], Inr [])
   \<and> returnTags (scripted 1 [[]]) (lit ''0137'') (lit ''key'') =
       Some ([MetaQuery key_url, PoolsQuery key_url zero_address 1], Inr [])"
proof (intro conjI)
  show "\<not> all_digits (lit '' 137 '')"
    by (simp add: all_digits_def is_digit_def lit_def)
  show "lit ''0137'' \<notin> {lit ''56'', lit ''137'', lit ''250'', lit ''1285''}"
    by (simp add: lit_def)
  show "returnTags (scripted 1 [[]]) (lit '' 137 '') (lit ''key'') =
       Some ([MetaQuery key_url, PoolsQuery key_url zero_address 1], Inr [])"
    using returnTags_run [OF prelude_scripted_padded empty_loop]
    by (simp add: transformPoolsToTags_def)
  show "returnTags (scripted 1 [[]]) (lit ''0137'') (lit ''key'') =
       Some ([MetaQuery key_url, PoolsQuery key_url zero_address 1], Inr [])"
    using returnTags_run [OF prelude_scripted_0137 empty_loop]
    by (simp add: transformPoolsToTags_def)
qed

text \<open>
  C6, amended. When the chain identifier, trimmed, is not a non-empty string of decimal
  digits, or its value is none of 56, 137, 250 and 1285, \<open>returnTags\<close> throws the
  validation error whose message has the identifier as the caller gave it, and no
  request has been issued.
\<close>

theorem unsupported_chain_rejected:
  assumes "\<not> all_digits (trim chainId) \<or> Number (trim chainId) \<notin> {56, 137, 250, 1285}"
  shows "returnTags net chainId apiKey =
           Some ([], Inl (Error ValidationError
                           (lit ''Unsupported Chain ID: '' @ chainId
                            @ lit ''. Only 56 (BNB Chain), 137 (Polygon), 250 (Fantom), and 1285 (Moonriver) are currently supported in this module.'')))"
  using prelude_rejects [OF assms, of net apiKey]
  by (simp add: returnTags_prelude unsupported_chain_def)

theorem unsupported_chain_rejected_witness:
  "returnTags (scripted 1 []) (lit ''9999'') (lit ''key'') =
     Some ([], Inl (Error ValidationError
       (lit ''Unsupported Chain ID: 9999. Only 56 (BNB Chain), 137 (Polygon), 250 (Fantom), and 1285 (Moonriver) are currently supported in this module.'')))"
proof -
  have "\<not> all_digits (trim (lit ''9999'')) \<or> Number (trim (lit ''9999'')) \<notin> {56, 137, 250, 1285}"
    by (simp add: trim_def lit_def is_space_def Number_def)
  from unsupported_chain_rejected [OF this, of "scripted 1 []" "lit ''key''"]
  show ?thesis by (simp add: lit_def)
qed


text \<open>
  C8. On chain \<open>137\<close>, when \<open>returnTags\<close> has reached its loop and the first page has
  the two records \<open>A\<close>, with the LP token \<open>0xaaa\<close>, \<open>SLP\<close>, \<open>Sushi LP Token\<close>, and \<open>B\<close>,
  without LP token, \<open>returnTags\<close> returns after this page with exactly one tag, which
  has the five fields of the example.
\<close>

theorem end_to_end_example:
  assumes "prelude net (lit ''137'') apiKey = (hist, Inr (137, url, blk))"
    and "snd (fetchPools net hist url zero_address blk) = Inr [A, B]"
    and "outputToken A = Some \<lparr>token_id = Some (lit ''0xaaa''), token_symbol = Some (lit ''SLP''),
                                 token_name = Some (lit ''Sushi LP Token'')\<rparr>"
    and "outputToken B = None"
  shows "returnTags net (lit ''137'') apiKey =
           Some (hist @ [PoolsQuery url zero_address blk],
                 Inr [\<lparr>Contract_Address = lit ''eip155:137:0xaaa'',
                       Public_Name_Tag = lit ''SLP Pool'',
                       Project_Name = lit ''Sushi'',
                       UI_Website_Link = lit ''https://www.sushi.com/'',
                       Public_Note = lit ''Sushi's SLP (Sushi LP Token) pool contract.''\<rparr>])"
proof -
  have "loop_body net url blk hist first_state =
          Leave (hist @ [PoolsQuery url zero_address blk], Inr [A, B])"
    using assms(2) loop_body_final [of net hist url first_state blk "[A, B]"]
    by (simp add: first_state_def)
  then have loop: "pagination_loop net url blk hist first_state =
          Some (hist @ [PoolsQuery url zero_address blk], Inr [A, B])"
    by (rule pagination_loop_leave)
  have sym: "trim (lit ''SLP'') = lit ''SLP''" and name: "trim (lit ''Sushi LP Token'') = lit ''Sushi LP Token''"
    by (simp_all add: trim_def lit_def is_space_def)
  have A: "lp_id A = Some (lit ''0xaaa'')" "lp_symbol A = lit ''SLP''" "lp_name A = lit ''Sushi LP Token''"
    using assms(3) by (simp_all add: lp_id_def lp_symbol_def lp_name_def sym name) (simp add: lit_def)
  have B: "lp_id B = None"
    using assms(4) by (simp add: lp_id_def)
  have "transformPoolsToTags (lit ''137'') [A, B] =
          [\<lparr>Contract_Address = lit ''eip155:137:0xaaa'',
            Public_Name_Tag = lit ''SLP Pool'',
            Project_Name = lit ''Sushi'',
            UI_Website_Link = lit ''https://www.sushi.com/'',
            Public_Note = lit ''Sushi's SLP (Sushi LP Token) pool contract.''\<rparr>]"
    by (simp add: transformPoolsToTags_def transform_loop_step A B emitted_def address_def
          truncateString_def) (simp add: lit_def)
  with returnTags_run [OF assms(1) loop] show ?thesis
    by (simp add: String_137)
qed


theorem end_to_end_example_witness:
  "returnTags (scripted 1 [[record_A, record_B]]) (lit ''137'') (lit ''key'') =
     Some ([MetaQuery key_url, PoolsQuery key_url zero_address 1], Inr [example_tag])"
proof -
  have page: "snd (fetchPools (scripted 1 [[record_A, record_B]]) [MetaQuery key_url] key_url
                     zero_address 1) = Inr [record_A, record_B]"
    by (simp add: fetchPools_scripted)
  have A: "outputToken record_A =
             Some \<lparr>token_id = Some (lit ''0xaaa''), token_symbol = Some (lit ''SLP''),
                    token_name = Some (lit ''Sushi LP Token'')\<rparr>"
    by (simp add: record_A_def pool_of_def token_of_def)
  have B: "outputToken record_B = None"
    by (simp add: record_B_def pool_of_def)
  from end_to_end_example [OF prelude_scripted page A B]
  show ?thesis by (simp add: example_tag_def)
qed

subsection \<open>The chain identifier in its canonical form\<close>






















end
